theory Spec2Isabelle
  imports Main
begin

section \<open>JSON values and Python dictionaries\<close>

text \<open>
  What \<^verbatim>\<open>json.loads\<close> returns. The type parameter \<open>'f\<close> is the type of Python
  floats: the model never looks inside a float, and every operation that Python
  performs on one (truth value, \<^verbatim>\<open>==\<close>, \<^verbatim>\<open>str\<close>) is a parameter of the function
  that needs it. A JSON object is a Python \<^verbatim>\<open>dict\<close>: an association list in
  insertion order.
\<close>

datatype 'f json =
    JNull
  | JBool bool
  | JInt int
  | JFloat 'f
  | JStr string
  | JArr "'f json list"
  | JObj "(string \<times> 'f json) list"

type_synonym 'f dict = "(string \<times> 'f json) list"

text \<open>\<^verbatim>\<open>key in d\<close>.\<close>

definition dict_in :: "'k \<Rightarrow> ('k \<times> 'v) list \<Rightarrow> bool" where
  "dict_in k d = (map_of d k \<noteq> None)"

text \<open>\<^verbatim>\<open>d.get(key)\<close>: the value, or \<^verbatim>\<open>None\<close> when the key is absent.\<close>

definition dict_get :: "'f dict \<Rightarrow> string \<Rightarrow> 'f json" where
  "dict_get d k = (case map_of d k of None \<Rightarrow> JNull | Some v \<Rightarrow> v)"

text \<open>
  \<^verbatim>\<open>d[key] = value\<close>: a key already present keeps its position and takes the new
  value, a new key goes to the end.
\<close>

fun dict_set :: "'k \<Rightarrow> 'v \<Rightarrow> ('k \<times> 'v) list \<Rightarrow> ('k \<times> 'v) list" where
  "dict_set k v [] = [(k, v)]"
| "dict_set k v ((k', v') # d) =
     (if k' = k then (k, v) # d else (k', v') # dict_set k v d)"

text \<open>
  The truth value of a JSON value (\<^verbatim>\<open>if x:\<close>): \<^verbatim>\<open>None\<close>, \<^verbatim>\<open>False\<close>, zero, the
  empty string, the empty list and the empty dict are false. \<open>fl_true\<close> is the
  truth value of a float.
\<close>

fun truthy :: "('f \<Rightarrow> bool) \<Rightarrow> 'f json \<Rightarrow> bool" where
  "truthy fl_true JNull = False"
| "truthy fl_true (JBool b) = b"
| "truthy fl_true (JInt i) = (i \<noteq> 0)"
| "truthy fl_true (JFloat x) = fl_true x"
| "truthy fl_true (JStr s) = (s \<noteq> [])"
| "truthy fl_true (JArr xs) = (xs \<noteq> [])"
| "truthy fl_true (JObj kvs) = (kvs \<noteq> [])"

subsection \<open>\<^verbatim>\<open>str(value)\<close>\<close>

definition digit_char :: "nat \<Rightarrow> char" where
  "digit_char n = ''0123456789'' ! n"

fun str_nat :: "nat \<Rightarrow> string" where
  "str_nat n = (if n < 10 then [digit_char n] else str_nat (n div 10) @ [digit_char (n mod 10)])"

declare str_nat.simps [simp del]

definition str_int :: "int \<Rightarrow> string" where
  "str_int i = (if i < 0 then CHR ''-'' # str_nat (nat (- i)) else str_nat (nat i))"

text \<open>
  \<^verbatim>\<open>str\<close> of a string is the string itself, of an integer its decimal digits, of a
  boolean \<^verbatim>\<open>True\<close> or \<^verbatim>\<open>False\<close>. The text Python gives a float, a list or a dict
  is the parameter \<open>repr\<close>.
\<close>

fun py_str :: "('f json \<Rightarrow> string) \<Rightarrow> 'f json \<Rightarrow> string" where
  "py_str repr JNull = ''None''"
| "py_str repr (JBool b) = (if b then ''True'' else ''False'')"
| "py_str repr (JInt i) = str_int i"
| "py_str repr (JStr s) = s"
| "py_str repr v = repr v"

section \<open>Record Transformer\<close>

text \<open>
  \<^verbatim>\<open>add_keys(record, keys_to_add)\<close>: a copy of the record, then
  \<^verbatim>\<open>result[key] = value\<close> for every item of \<^verbatim>\<open>keys_to_add\<close> in its order.
\<close>

definition add_keys :: "'f dict \<Rightarrow> 'f dict \<Rightarrow> 'f dict" where
  "add_keys record keys_to_add =
     fold (\<lambda>(key, val) result. dict_set key val result) keys_to_add record"

text \<open>
  \<^verbatim>\<open>modify_keys(record, keys_to_modify)\<close>: starts from the empty dict; every item of
  the record is stored under \<^verbatim>\<open>keys_to_modify[key]\<close> when the key is a source of
  the rename map, under its own key otherwise. The rename map gives key names:
  its values are strings.
\<close>

definition modify_keys :: "'f dict \<Rightarrow> (string \<times> string) list \<Rightarrow> 'f dict" where
  "modify_keys record keys_to_modify =
     fold (\<lambda>(key, val) result.
             (case map_of keys_to_modify key of
                Some new_key \<Rightarrow> dict_set new_key val result
              | None \<Rightarrow> dict_set key val result))
          record []"

text \<open>
  A value of the ChatML configuration: \<^verbatim>\<open>isinstance(source_fields, list)\<close> holds
  for \<open>Fields\<close>, whose elements are the source field names, and fails for
  \<open>NotList\<close>.
\<close>

datatype chatml_spec = Fields "string list" | NotList

text \<open>One message of the list: \<^verbatim>\<open>{'role': role, 'content': record[field]}\<close>.\<close>

definition message :: "string \<Rightarrow> 'f json \<Rightarrow> 'f json" where
  "message role content = JObj [(''role'', JStr role), (''content'', content)]"

text \<open>
  \<^verbatim>\<open>if record.get(field): messages.append({'role': role, 'content': record[field]})\<close>
\<close>

definition append_message ::
  "('f \<Rightarrow> bool) \<Rightarrow> 'f dict \<Rightarrow> string \<Rightarrow> string \<Rightarrow> 'f json list \<Rightarrow> 'f json list" where
  "append_message fl_true record role field messages =
     (if truthy fl_true (dict_get record field)
      then messages @ [message role (dict_get record field)]
      else messages)"

text \<open>
  The body of the loop of \<^verbatim>\<open>convert_to_chatml_function\<close> for one item of the
  configuration. An entry that is not a list, or whose length is neither 2 nor 3,
  is skipped (\<^verbatim>\<open>continue\<close>); the source fields are read from \<^verbatim>\<open>record\<close>, the
  list is stored in \<^verbatim>\<open>result\<close>, and only under \<^verbatim>\<open>if messages:\<close>.
\<close>

fun chatml_entry ::
  "('f \<Rightarrow> bool) \<Rightarrow> 'f dict \<Rightarrow> string \<times> chatml_spec \<Rightarrow> 'f dict \<Rightarrow> 'f dict" where
  "chatml_entry fl_true record (new_key, NotList) result = result"
| "chatml_entry fl_true record (new_key, Fields [system_field, user_field, assistant_field]) result =
     (let messages = append_message fl_true record ''system'' system_field [];
          messages = append_message fl_true record ''user'' user_field messages;
          messages = append_message fl_true record ''assistant'' assistant_field messages
      in if messages \<noteq> [] then dict_set new_key (JArr messages) result else result)"
| "chatml_entry fl_true record (new_key, Fields [user_field, assistant_field]) result =
     (let messages = append_message fl_true record ''user'' user_field [];
          messages = append_message fl_true record ''assistant'' assistant_field messages
      in if messages \<noteq> [] then dict_set new_key (JArr messages) result else result)"
| "chatml_entry fl_true record (new_key, Fields source_fields) result = result"

definition convert_to_chatml_function ::
  "('f \<Rightarrow> bool) \<Rightarrow> 'f dict \<Rightarrow> (string \<times> chatml_spec) list \<Rightarrow> 'f dict" where
  "convert_to_chatml_function fl_true record chatml_config =
     fold (chatml_entry fl_true record) chatml_config record"

text \<open>
  \<^verbatim>\<open>should_delete_record(record, delete_conditions)\<close>. \<open>py_eq\<close> is Python's
  \<^verbatim>\<open>==\<close> on two values and \<open>py_in x xs\<close> is \<^verbatim>\<open>x in xs\<close> for a list \<open>xs\<close>; a
  condition that is a list is a membership test, any other an equality test. The
  first condition that matches returns \<^verbatim>\<open>True\<close>.
\<close>

fun should_delete_record ::
  "('f json \<Rightarrow> 'f json \<Rightarrow> bool) \<Rightarrow> ('f json \<Rightarrow> 'f json list \<Rightarrow> bool) \<Rightarrow>
   'f dict \<Rightarrow> 'f dict \<Rightarrow> bool" where
  "should_delete_record py_eq py_in record [] = False"
| "should_delete_record py_eq py_in record ((key, value_condition) # delete_conditions) =
     (if dict_in key record
      then (case value_condition of
              JArr xs \<Rightarrow>
                if py_in (dict_get record key) xs then True
                else should_delete_record py_eq py_in record delete_conditions
            | _ \<Rightarrow>
                if py_eq (dict_get record key) value_condition then True
                else should_delete_record py_eq py_in record delete_conditions)
      else should_delete_record py_eq py_in record delete_conditions)"

section \<open>Files\<close>

text \<open>
  A file is the list of its lines, each as \<^verbatim>\<open>line.strip()\<close> and \<^verbatim>\<open>json.loads\<close>
  see it: \<open>Blank\<close> when nothing is left after stripping, \<open>Malformed raw\<close> when
  \<^verbatim>\<open>json.loads\<close> raises \<^verbatim>\<open>JSONDecodeError\<close> (\<open>raw\<close> is the line as read, with
  its line end if it has one), \<open>Valid record\<close> when the line parses to the dict
  \<open>record\<close>. Every function of the source takes its record as a \<^verbatim>\<open>dict\<close>
  (\<^verbatim>\<open>record: dict\<close>), and so does the model: a line that parses to a JSON value
  other than an object is not a line of these files. What is written to an
  output file is the list of the \<^verbatim>\<open>write\<close> calls: \<open>Text s\<close> for the string
  \<open>s\<close>, \<open>Dumped record\<close> for \<^verbatim>\<open>json.dumps(record, ensure_ascii=False) + '\n'\<close>.
\<close>

datatype 'f line = Blank | Malformed string | Valid "'f dict"

datatype 'f written = Text string | Dumped "'f dict"

type_synonym path = string

datatype py_error = ValueError string | TypeError | KeyError | Exit nat

section \<open>Identity Resolver\<close>

text \<open>\<^verbatim>\<open>get_id_field_name(record)\<close>: the first of \<^verbatim>\<open>_id\<close>, \<^verbatim>\<open>uuid\<close>, \<^verbatim>\<open>id\<close> in the record.\<close>

definition get_id_field_name :: "'f dict \<Rightarrow> string option" where
  "get_id_field_name record = find (\<lambda>field. dict_in field record) [''_id'', ''uuid'', ''id'']"

text \<open>
  The loop of \<^verbatim>\<open>collect_ids_from_file\<close> over the lines that remain, with the
  variables \<^verbatim>\<open>ids\<close> and \<^verbatim>\<open>id_field_name\<close>. The \<^verbatim>\<open>ValueError\<close> raised inside
  the \<^verbatim>\<open>try\<close> is not a \<^verbatim>\<open>JSONDecodeError\<close> and leaves the function.
\<close>

fun collect_ids_loop ::
  "('f json \<Rightarrow> string) \<Rightarrow> path \<Rightarrow> 'f line list \<Rightarrow> string set \<Rightarrow> string option \<Rightarrow>
   py_error + (string set \<times> string option)" where
  "collect_ids_loop repr file_path [] ids id_field_name = Inr (ids, id_field_name)"
| "collect_ids_loop repr file_path (Blank # lines) ids id_field_name =
     collect_ids_loop repr file_path lines ids id_field_name"
| "collect_ids_loop repr file_path (Malformed raw # lines) ids id_field_name =
     collect_ids_loop repr file_path lines ids id_field_name"
| "collect_ids_loop repr file_path (Valid record # lines) ids id_field_name =
     (case (case id_field_name of None \<Rightarrow> get_id_field_name record | Some f \<Rightarrow> Some f) of
        None \<Rightarrow> Inl (ValueError (''No valid ID field (_id, uuid, or id) found in '' @ file_path))
      | Some f \<Rightarrow>
          (let id_value = dict_get record f
           in collect_ids_loop repr file_path lines
                (if id_value \<noteq> JNull then insert (py_str repr id_value) ids else ids)
                (Some f)))"

definition collect_ids_from_file ::
  "('f json \<Rightarrow> string) \<Rightarrow> path \<Rightarrow> 'f line list \<Rightarrow> py_error + (string set \<times> string)" where
  "collect_ids_from_file repr file_path lines =
     (case collect_ids_loop repr file_path lines {} None of
        Inl e \<Rightarrow> Inl e
      | Inr (ids, None) \<Rightarrow> Inl (ValueError (''No valid records found in '' @ file_path))
      | Inr (ids, Some id_field_name) \<Rightarrow> Inr (ids, id_field_name))"

section \<open>Streaming Merge Engine\<close>

text \<open>
  The variables of \<^verbatim>\<open>merge_jsonl_files\<close> that the second pass changes, and the
  line printed after each file (\<open>console\<close>: written and skipped from that file).
\<close>

record 'f merge_state =
  outfile :: "'f written list"
  seen_ids :: "string set"
  total_written :: nat
  total_skipped :: nat
  written_from_file :: nat
  skipped_from_file :: nat
  console :: "(nat \<times> nat) list"

text \<open>The first pass: the identity field of each file, by path. A
  \<^verbatim>\<open>ValueError\<close> of \<^verbatim>\<open>collect_ids_from_file\<close> becomes \<^verbatim>\<open>typer.Exit(code=1)\<close>. The
  sets of identities are only counted for the console and are not kept here.\<close>

fun collect_all ::
  "('f json \<Rightarrow> string) \<Rightarrow> (path \<Rightarrow> 'f line list) \<Rightarrow> path list \<Rightarrow> (path \<rightharpoonup> string) \<Rightarrow>
   py_error + (path \<rightharpoonup> string)" where
  "collect_all repr fs [] id_fields_by_file = Inr id_fields_by_file"
| "collect_all repr fs (file_path # file_paths) id_fields_by_file =
     (case collect_ids_from_file repr file_path (fs file_path) of
        Inl (ValueError e) \<Rightarrow> Inl (Exit 1)
      | Inl e \<Rightarrow> Inl e
      | Inr (ids, id_field) \<Rightarrow>
          collect_all repr fs file_paths (id_fields_by_file(file_path \<mapsto> id_field)))"

text \<open>The body of the inner loop of the second pass, for one line.\<close>

fun merge_line ::
  "('f json \<Rightarrow> string) \<Rightarrow> string \<Rightarrow> 'f line \<Rightarrow> 'f merge_state \<Rightarrow> 'f merge_state" where
  "merge_line repr id_field Blank st = st"
| "merge_line repr id_field (Malformed raw) st = st"
| "merge_line repr id_field (Valid record) st =
     (let id_value = dict_get record id_field
      in if id_value \<noteq> JNull
         then (let id_str = py_str repr id_value
               in if id_str \<notin> seen_ids st
                  then st\<lparr>outfile := outfile st @ [Dumped record],
                          seen_ids := insert id_str (seen_ids st),
                          written_from_file := written_from_file st + 1,
                          total_written := total_written st + 1\<rparr>
                  else st\<lparr>skipped_from_file := skipped_from_file st + 1,
                          total_skipped := total_skipped st + 1\<rparr>)
         else st)"

text \<open>One file of the second pass: the counters of the file start at 0, the lines
  are taken in order, the line of the file is printed.\<close>

definition merge_file ::
  "('f json \<Rightarrow> string) \<Rightarrow> string \<Rightarrow> 'f line list \<Rightarrow> 'f merge_state \<Rightarrow> 'f merge_state" where
  "merge_file repr id_field lines st =
     (let st = fold (merge_line repr id_field) lines
                 (st\<lparr>written_from_file := 0, skipped_from_file := 0\<rparr>)
      in st\<lparr>console := console st @ [(written_from_file st, skipped_from_file st)]\<rparr>)"

fun merge_pass2 ::
  "('f json \<Rightarrow> string) \<Rightarrow> (path \<Rightarrow> 'f line list) \<Rightarrow> (path \<rightharpoonup> string) \<Rightarrow> path list \<Rightarrow>
   'f merge_state \<Rightarrow> py_error + 'f merge_state" where
  "merge_pass2 repr fs id_fields_by_file [] st = Inr st"
| "merge_pass2 repr fs id_fields_by_file (file_path # file_paths) st =
     (case id_fields_by_file file_path of
        None \<Rightarrow> Inl KeyError
      | Some id_field \<Rightarrow>
          merge_pass2 repr fs id_fields_by_file file_paths
            (merge_file repr id_field (fs file_path) st))"

text \<open>
  \<^verbatim>\<open>merge_jsonl_files(file_paths, output_path)\<close>; \<open>fs\<close> gives the lines of each
  input file, the same at every reading, and the output file is none of them.
  \<^verbatim>\<open>set.union(*all_ids_by_file.values())\<close> raises \<^verbatim>\<open>TypeError\<close> when there is no
  file.
\<close>

definition merge_jsonl_files ::
  "('f json \<Rightarrow> string) \<Rightarrow> (path \<Rightarrow> 'f line list) \<Rightarrow> path list \<Rightarrow> py_error + 'f merge_state" where
  "merge_jsonl_files repr fs file_paths =
     (case collect_all repr fs file_paths Map.empty of
        Inl e \<Rightarrow> Inl e
      | Inr id_fields_by_file \<Rightarrow>
          if file_paths = [] then Inl TypeError
          else merge_pass2 repr fs id_fields_by_file file_paths
                 \<lparr>outfile = [], seen_ids = {}, total_written = 0, total_skipped = 0,
                  written_from_file = 0, skipped_from_file = 0, console = []\<rparr>)"

section \<open>Single-File Processor\<close>

text \<open>
  A JSON option of the command line: \<open>ArgAbsent\<close> when the option is not given or
  is the empty string, \<open>ArgMalformed\<close> when \<^verbatim>\<open>json.loads\<close> raises on it,
  \<open>ArgDict d\<close> when it parses to the dict \<open>d\<close>.
\<close>

datatype 'a json_arg = ArgAbsent | ArgMalformed | ArgDict 'a

text \<open>
  What \<^verbatim>\<open>process\<close> prints before \<^verbatim>\<open>raise typer.Exit(code=1)\<close>, and the
  \<^verbatim>\<open>typer.BadParameter\<close> of \<^verbatim>\<open>parse_json_arg\<close>.
\<close>

datatype message =
    InputFileRequired
  | InvalidJsonAtLine nat
  | NoOperationsSpecified
  | InvalidChatMLConfiguration string

datatype fatal = Exit1 message | BadParameter

fun parse_json_arg :: "('k \<times> 'v) list json_arg \<Rightarrow> fatal + ('k \<times> 'v) list" where
  "parse_json_arg ArgAbsent = Inr []"
| "parse_json_arg ArgMalformed = Inl BadParameter"
| "parse_json_arg (ArgDict d) = Inr d"

text \<open>
  \<^verbatim>\<open>validate_jsonl_file\<close>: \<open>None\<close> when it returns \<^verbatim>\<open>True\<close>; \<open>Some line_num\<close> when
  it prints the number of the first line that does not parse and returns
  \<^verbatim>\<open>False\<close>. Lines are numbered from 1.
\<close>

fun validate_from :: "nat \<Rightarrow> 'f line list \<Rightarrow> nat option" where
  "validate_from line_num [] = None"
| "validate_from line_num (Blank # lines) = validate_from (Suc line_num) lines"
| "validate_from line_num (Valid record # lines) = validate_from (Suc line_num) lines"
| "validate_from line_num (Malformed raw # lines) = Some line_num"

definition validate_jsonl_file :: "'f line list \<Rightarrow> nat option" where
  "validate_jsonl_file lines = validate_from 1 lines"

text \<open>The four dicts of the configuration, as the loop receives them.\<close>

record 'f transform_spec =
  spec_additions :: "'f dict"
  spec_renames :: "(string \<times> string) list"
  spec_delete_conditions :: "'f dict"
  spec_chatml :: "(string \<times> chatml_spec) list"

text \<open>
  The lines under \<^verbatim>\<open># Apply modifications\<close>, the same in the preview and in the
  loop: each operation runs only when its dict is not empty.
\<close>

definition apply_modifications ::
  "('f \<Rightarrow> bool) \<Rightarrow> 'f transform_spec \<Rightarrow> 'f dict \<Rightarrow> 'f dict" where
  "apply_modifications fl_true spec record =
     (let modified_record = record;
          modified_record =
            (if spec_additions spec \<noteq> []
             then add_keys modified_record (spec_additions spec) else modified_record);
          modified_record =
            (if spec_renames spec \<noteq> []
             then modify_keys modified_record (spec_renames spec) else modified_record);
          modified_record =
            (if spec_chatml spec \<noteq> []
             then convert_to_chatml_function fl_true modified_record (spec_chatml spec)
             else modified_record)
      in modified_record)"

text \<open>\<^verbatim>\<open>line.endswith('\n')\<close>\<close>

definition newline :: string where
  "newline = [CHR 0x0A]"

definition ends_with_newline :: "string \<Rightarrow> bool" where
  "ends_with_newline s = (s \<noteq> [] \<and> last s = CHR 0x0A)"

text \<open>
  The variables of the processing loop: what has been written to the output
  file, the two counters of the summary, and the lines the progress bar has
  advanced over.
\<close>

record 'f process_state =
  writes :: "'f written list"
  records_processed :: nat
  records_deleted :: nat
  progress_completed :: nat

text \<open>The body of the processing loop for one line.\<close>

fun process_line ::
  "('f \<Rightarrow> bool) \<Rightarrow> ('f json \<Rightarrow> 'f json \<Rightarrow> bool) \<Rightarrow> ('f json \<Rightarrow> 'f json list \<Rightarrow> bool) \<Rightarrow>
   'f transform_spec \<Rightarrow> 'f line \<Rightarrow> 'f process_state \<Rightarrow> 'f process_state" where
  "process_line fl_true py_eq py_in spec Blank st =
     st\<lparr>writes := writes st @ [Text newline],
        progress_completed := progress_completed st + 1\<rparr>"
| "process_line fl_true py_eq py_in spec (Valid record) st =
     (if should_delete_record py_eq py_in record (spec_delete_conditions spec)
      then st\<lparr>records_deleted := records_deleted st + 1,
              progress_completed := progress_completed st + 1\<rparr>
      else st\<lparr>writes := writes st @ [Dumped (apply_modifications fl_true spec record)],
              records_processed := records_processed st + 1,
              progress_completed := progress_completed st + 1\<rparr>)"
| "process_line fl_true py_eq py_in spec (Malformed raw) st =
     st\<lparr>writes := writes st @
                 (if ends_with_newline raw then [Text raw] else [Text raw, Text newline]),
        progress_completed := progress_completed st + 1\<rparr>"

definition process_loop ::
  "('f \<Rightarrow> bool) \<Rightarrow> ('f json \<Rightarrow> 'f json \<Rightarrow> bool) \<Rightarrow> ('f json \<Rightarrow> 'f json list \<Rightarrow> bool) \<Rightarrow>
   'f transform_spec \<Rightarrow> 'f line list \<Rightarrow> 'f process_state" where
  "process_loop fl_true py_eq py_in spec lines =
     fold (process_line fl_true py_eq py_in spec) lines
       \<lparr>writes = [], records_processed = 0, records_deleted = 0, progress_completed = 0\<rparr>"

text \<open>
  The preview: the first line that is not blank and parses. \<open>None\<close> when there is
  no such line; otherwise the record and, unless it would be deleted, the record
  as modified.
\<close>

fun preview_first ::
  "('f \<Rightarrow> bool) \<Rightarrow> ('f json \<Rightarrow> 'f json \<Rightarrow> bool) \<Rightarrow> ('f json \<Rightarrow> 'f json list \<Rightarrow> bool) \<Rightarrow>
   'f transform_spec \<Rightarrow> 'f line list \<Rightarrow> ('f dict \<times> 'f dict option) option" where
  "preview_first fl_true py_eq py_in spec [] = None"
| "preview_first fl_true py_eq py_in spec (Blank # lines) =
     preview_first fl_true py_eq py_in spec lines"
| "preview_first fl_true py_eq py_in spec (Malformed raw # lines) =
     preview_first fl_true py_eq py_in spec lines"
| "preview_first fl_true py_eq py_in spec (Valid record # lines) =
     (if should_delete_record py_eq py_in record (spec_delete_conditions spec)
      then Some (record, None)
      else Some (record, Some (apply_modifications fl_true spec record)))"

text \<open>
  How a run of \<^verbatim>\<open>process\<close> that does not exit ends: with the preview, or with
  the total of the progress bar (\<^verbatim>\<open>total_lines\<close>) and the final variables of the
  loop, of which the summary prints \<^verbatim>\<open>records_processed\<close> and
  \<^verbatim>\<open>records_deleted\<close>.
\<close>

datatype 'f outcome =
    Previewed "('f dict \<times> 'f dict option) option"
  | Completed nat "'f process_state"

text \<open>\<^verbatim>\<open>not isinstance(fields, list) or len(fields) not in (2, 3)\<close>\<close>

fun invalid_chatml :: "string \<times> chatml_spec \<Rightarrow> bool" where
  "invalid_chatml (new_key, NotList) = True"
| "invalid_chatml (new_key, Fields fs) = (length fs \<noteq> 2 \<and> length fs \<noteq> 3)"

text \<open>
  \<^verbatim>\<open>process\<close> without \<^verbatim>\<open>--merge\<close>, in the order of the source: the input file is
  required, then validated, then the four JSON options are parsed, then at least
  one operation is required, then the ChatML configuration is checked entry by
  entry, and only then the preview or the processing loop runs. The lines of
  the input file are the same at every reading.
\<close>

definition process ::
  "('f \<Rightarrow> bool) \<Rightarrow> ('f json \<Rightarrow> 'f json \<Rightarrow> bool) \<Rightarrow> ('f json \<Rightarrow> 'f json list \<Rightarrow> bool) \<Rightarrow>
   'f line list option \<Rightarrow> 'f dict json_arg \<Rightarrow> (string \<times> string) list json_arg \<Rightarrow>
   'f dict json_arg \<Rightarrow> (string \<times> chatml_spec) list json_arg \<Rightarrow> bool \<Rightarrow> fatal + 'f outcome" where
  "process fl_true py_eq py_in input_file key_content_to_add keys_to_modify
     delete_line_if_value convert_to_chatml_config preview =
     (case input_file of
        None \<Rightarrow> Inl (Exit1 InputFileRequired)
      | Some lines \<Rightarrow>
     (case validate_jsonl_file lines of
        Some line_num \<Rightarrow> Inl (Exit1 (InvalidJsonAtLine line_num))
      | None \<Rightarrow>
     (case parse_json_arg key_content_to_add of
        Inl e \<Rightarrow> Inl e
      | Inr keys_to_add_dict \<Rightarrow>
     (case parse_json_arg keys_to_modify of
        Inl e \<Rightarrow> Inl e
      | Inr keys_to_modify_dict \<Rightarrow>
     (case parse_json_arg delete_line_if_value of
        Inl e \<Rightarrow> Inl e
      | Inr delete_conditions_dict \<Rightarrow>
     (case parse_json_arg convert_to_chatml_config of
        Inl e \<Rightarrow> Inl e
      | Inr chatml_config_dict \<Rightarrow>
          if keys_to_add_dict = [] \<and> keys_to_modify_dict = [] \<and>
             delete_conditions_dict = [] \<and> chatml_config_dict = []
          then Inl (Exit1 NoOperationsSpecified)
          else
            (case find invalid_chatml chatml_config_dict of
               Some (new_key, fs) \<Rightarrow> Inl (Exit1 (InvalidChatMLConfiguration new_key))
             | None \<Rightarrow>
                 (let spec = \<lparr>spec_additions = keys_to_add_dict,
                              spec_renames = keys_to_modify_dict,
                              spec_delete_conditions = delete_conditions_dict,
                              spec_chatml = chatml_config_dict\<rparr>;
                      total_lines = length lines
                  in if preview
                     then Inr (Previewed (preview_first fl_true py_eq py_in spec lines))
                     else Inr (Completed total_lines
                                 (process_loop fl_true py_eq py_in spec lines))))))))))"

section \<open>The transformer operations on a store of dicts\<close>

text \<open>
  Python dicts are objects: a variable holds a reference, \<^verbatim>\<open>record.copy()\<close> and
  \<^verbatim>\<open>{}\<close> make a new object, \<^verbatim>\<open>result[key] = value\<close> changes the object that
  \<^verbatim>\<open>result\<close> refers to. The store gives the dict at each address; the addresses
  below \<open>next_addr\<close> are the ones in use. The values inside a dict are shared by
  a copy, and none of the operations changes a value.
\<close>

type_synonym addr = nat

record 'f heap =
  objects :: "addr \<Rightarrow> 'f dict"
  next_addr :: addr

text \<open>\<^verbatim>\<open>record.copy()\<close>\<close>

definition heap_copy :: "addr \<Rightarrow> 'f heap \<Rightarrow> addr \<times> 'f heap" where
  "heap_copy a h =
     (next_addr h,
      h\<lparr>objects := (objects h)(next_addr h := objects h a), next_addr := Suc (next_addr h)\<rparr>)"

text \<open>\<^verbatim>\<open>{}\<close>\<close>

definition heap_new :: "'f heap \<Rightarrow> addr \<times> 'f heap" where
  "heap_new h =
     (next_addr h,
      h\<lparr>objects := (objects h)(next_addr h := []), next_addr := Suc (next_addr h)\<rparr>)"

text \<open>\<^verbatim>\<open>d[key] = value\<close> for the dict at address \<open>a\<close>\<close>

definition heap_setitem :: "addr \<Rightarrow> string \<Rightarrow> 'f json \<Rightarrow> 'f heap \<Rightarrow> 'f heap" where
  "heap_setitem a key val h = h\<lparr>objects := (objects h)(a := dict_set key val (objects h a))\<rparr>"

definition add_keys_heap :: "addr \<Rightarrow> 'f dict \<Rightarrow> 'f heap \<Rightarrow> addr \<times> 'f heap" where
  "add_keys_heap record keys_to_add h =
     (let (result, h) = heap_copy record h
      in (result, fold (\<lambda>(key, val) h. heap_setitem result key val h) keys_to_add h))"

text \<open>The loop runs over the items of the dict at \<open>record\<close>.\<close>

definition modify_keys_heap :: "addr \<Rightarrow> (string \<times> string) list \<Rightarrow> 'f heap \<Rightarrow> addr \<times> 'f heap" where
  "modify_keys_heap record keys_to_modify h =
     (let (result, h) = heap_new h
      in (result,
          fold (\<lambda>(key, val) h.
                  (case map_of keys_to_modify key of
                     Some new_key \<Rightarrow> heap_setitem result new_key val h
                   | None \<Rightarrow> heap_setitem result key val h))
               (objects h record) h))"

text \<open>
  One item of the ChatML configuration: the source fields are read from the dict
  at \<open>record\<close> as it is in the store at that moment, the list is stored in the
  dict at \<open>result\<close>.
\<close>

definition chatml_entry_heap ::
  "('f \<Rightarrow> bool) \<Rightarrow> addr \<Rightarrow> addr \<Rightarrow> string \<times> chatml_spec \<Rightarrow> 'f heap \<Rightarrow> 'f heap" where
  "chatml_entry_heap fl_true record result entry h =
     h\<lparr>objects := (objects h)
         (result := chatml_entry fl_true (objects h record) entry (objects h result))\<rparr>"

definition convert_to_chatml_function_heap ::
  "('f \<Rightarrow> bool) \<Rightarrow> addr \<Rightarrow> (string \<times> chatml_spec) list \<Rightarrow> 'f heap \<Rightarrow> addr \<times> 'f heap" where
  "convert_to_chatml_function_heap fl_true record chatml_config h =
     (let (result, h) = heap_copy record h
      in (result, fold (chatml_entry_heap fl_true record result) chatml_config h))"

text \<open>\<^verbatim>\<open>should_delete_record\<close> reads the dict at \<open>record\<close> and writes nothing.\<close>

definition should_delete_record_heap ::
  "('f json \<Rightarrow> 'f json \<Rightarrow> bool) \<Rightarrow> ('f json \<Rightarrow> 'f json list \<Rightarrow> bool) \<Rightarrow>
   addr \<Rightarrow> 'f dict \<Rightarrow> 'f heap \<Rightarrow> bool \<times> 'f heap" where
  "should_delete_record_heap py_eq py_in record delete_conditions h =
     (should_delete_record py_eq py_in (objects h record) delete_conditions, h)"

section \<open>Notions used to state the properties\<close>

text \<open>The records of a file: its lines that parse, in order.\<close>

definition valid_records :: "'f line list \<Rightarrow> 'f dict list" where
  "valid_records lines = [record. Valid record \<leftarrow> lines]"

text \<open>
  The records of a file that have an identity under the identity field of the
  file, each with the string of its identity value, in line order.
\<close>

definition candidates ::
  "('f json \<Rightarrow> string) \<Rightarrow> string \<Rightarrow> 'f line list \<Rightarrow> (string \<times> 'f dict) list" where
  "candidates repr id_field lines =
     [(py_str repr (dict_get record id_field), record).
        record \<leftarrow> valid_records lines, dict_get record id_field \<noteq> JNull]"

text \<open>The same for a list of files, file after file; \<open>fld\<close> gives the identity
  field of each file.\<close>

definition all_candidates ::
  "('f json \<Rightarrow> string) \<Rightarrow> (path \<Rightarrow> 'f line list) \<Rightarrow> (path \<Rightarrow> string) \<Rightarrow> path list \<Rightarrow>
   (string \<times> 'f dict) list" where
  "all_candidates repr fs fld file_paths =
     concat (map (\<lambda>p. candidates repr (fld p) (fs p)) file_paths)"

text \<open>
  First-seen-wins: of a list of keyed entries, those whose key occurs at no
  earlier position, in order.
\<close>

definition first_seen :: "('k \<times> 'a) list \<Rightarrow> 'a list" where
  "first_seen cs =
     [snd (cs ! i). i \<leftarrow> [0..<length cs], fst (cs ! i) \<notin> fst ` set (take i cs)]"

text \<open>The same with a set of keys seen before the list starts.\<close>

fun keep_new :: "'k set \<Rightarrow> ('k \<times> 'a) list \<Rightarrow> 'a list" where
  "keep_new S [] = []"
| "keep_new S ((k, r) # cs) = (if k \<in> S then keep_new S cs else r # keep_new (insert k S) cs)"

text \<open>A line that is not blank.\<close>

definition not_blank :: "'f line \<Rightarrow> bool" where
  "not_blank l = (l \<noteq> Blank)"

text \<open>
  The name under which \<^verbatim>\<open>modify_keys\<close> emits a key, and the inverse of a
  rename map: every target renamed back to its source.
\<close>

definition renamed_key :: "(string \<times> string) list \<Rightarrow> string \<Rightarrow> string" where
  "renamed_key keys_to_modify key =
     (case map_of keys_to_modify key of Some new_key \<Rightarrow> new_key | None \<Rightarrow> key)"

definition inverse_renames :: "(string \<times> string) list \<Rightarrow> (string \<times> string) list" where
  "inverse_renames keys_to_modify = map (\<lambda>(old_key, new_key). (new_key, old_key)) keys_to_modify"

text \<open>
  The items of a record as \<^verbatim>\<open>modify_keys\<close> emits them: each value under the name
  its key is renamed to, in the order of the record.
\<close>

definition emitted_items :: "(string \<times> string) list \<Rightarrow> 'f dict \<Rightarrow> 'f dict" where
  "emitted_items keys_to_modify record =
     map (\<lambda>(key, val). (renamed_key keys_to_modify key, val)) record"

text \<open>
  The message list in the words of the specification: the entry of a role is
  there when its source field is present in the record and its value is not
  falsy; system (for three source fields), then user, then assistant. Any other
  number of source fields gives no list.
\<close>

definition role_entry :: "('f \<Rightarrow> bool) \<Rightarrow> 'f dict \<Rightarrow> string \<Rightarrow> string \<Rightarrow> 'f json list" where
  "role_entry fl_true record role field =
     (if dict_in field record \<and> truthy fl_true (dict_get record field)
      then [message role (dict_get record field)] else [])"

fun messages_for :: "('f \<Rightarrow> bool) \<Rightarrow> 'f dict \<Rightarrow> string list \<Rightarrow> 'f json list" where
  "messages_for fl_true record [system_field, user_field, assistant_field] =
     role_entry fl_true record ''system'' system_field @
     role_entry fl_true record ''user'' user_field @
     role_entry fl_true record ''assistant'' assistant_field"
| "messages_for fl_true record [user_field, assistant_field] =
     role_entry fl_true record ''user'' user_field @
     role_entry fl_true record ''assistant'' assistant_field"
| "messages_for fl_true record source_fields = []"

text \<open>
  What the Single-File Processor writes for one line, in the words of the
  specification: a blank line passes as an empty line; a malformed line is
  written verbatim, with a line end added when it has none; a record is omitted
  when the delete check holds, and otherwise written as modified.
\<close>

fun is_malformed :: "'f line \<Rightarrow> bool" where
  "is_malformed (Malformed raw) = True"
| "is_malformed l = False"

fun line_output ::
  "('f \<Rightarrow> bool) \<Rightarrow> ('f json \<Rightarrow> 'f json \<Rightarrow> bool) \<Rightarrow> ('f json \<Rightarrow> 'f json list \<Rightarrow> bool) \<Rightarrow>
   'f transform_spec \<Rightarrow> 'f line \<Rightarrow> 'f written list" where
  "line_output fl_true py_eq py_in spec Blank = [Text newline]"
| "line_output fl_true py_eq py_in spec (Malformed raw) =
     [Text raw] @ (if ends_with_newline raw then [] else [Text newline])"
| "line_output fl_true py_eq py_in spec (Valid record) =
     (if should_delete_record py_eq py_in record (spec_delete_conditions spec) then []
      else [Dumped (apply_modifications fl_true spec record)])"

section \<open>Properties of the Streaming Merge Engine\<close>

subsection \<open>The second pass keeps the first record of each identity\<close>

lemma valid_records_simps [simp]:
  "valid_records [] = []"
  "valid_records (Blank # ls) = valid_records ls"
  "valid_records (Malformed raw # ls) = valid_records ls"
  "valid_records (Valid r # ls) = r # valid_records ls"
  by (simp_all add: valid_records_def)

lemma valid_records_append [simp]: "valid_records (xs @ ys) = valid_records xs @ valid_records ys"
  by (simp add: valid_records_def)

lemma candidates_simps [simp]:
  "candidates repr f [] = []"
  "candidates repr f (Blank # ls) = candidates repr f ls"
  "candidates repr f (Malformed raw # ls) = candidates repr f ls"
  "candidates repr f (Valid r # ls) =
     (if dict_get r f \<noteq> JNull then [(py_str repr (dict_get r f), r)] else []) @ candidates repr f ls"
  by (simp_all add: candidates_def)

lemma keep_new_index:
  "keep_new S cs = [snd (cs ! i). i \<leftarrow> [0..<length cs], fst (cs ! i) \<notin> S \<union> fst ` set (take i cs)]"
proof (induction cs arbitrary: S)
  case Nil
  then show ?case by simp
next
  case (Cons c cs)
  obtain k r where c: "c = (k, r)" by (cases c)
  have upt: "[0..<length (c # cs)] = 0 # map Suc [0..<length cs]"
    by (simp add: upt_conv_Cons map_Suc_upt del: upt_Suc)
  show ?case
    unfolding upt
    by (auto simp: c Cons.IH comp_def simp del: upt_Suc intro!: arg_cong[where f=concat] map_cong)
qed

lemma keep_new_first_seen: "keep_new {} cs = first_seen cs"
  by (simp add: keep_new_index first_seen_def)

lemma keep_new_append:
  "keep_new S (xs @ ys) = keep_new S xs @ keep_new (S \<union> fst ` set xs) ys"
  by (induction S xs rule: keep_new.induct) (auto simp: insert_absorb)

lemma length_keep_new: "length (keep_new S cs) \<le> length cs"
  by (induction S cs rule: keep_new.induct) (auto simp: le_SucI)


lemma fold_merge_line:
  "fold (merge_line repr f) lines st =
     st\<lparr>outfile := outfile st @ map Dumped (keep_new (seen_ids st) (candidates repr f lines)),
        seen_ids := seen_ids st \<union> fst ` set (candidates repr f lines),
        total_written := total_written st + length (keep_new (seen_ids st) (candidates repr f lines)),
        total_skipped := total_skipped st +
           (length (candidates repr f lines) - length (keep_new (seen_ids st) (candidates repr f lines))),
        written_from_file := written_from_file st + length (keep_new (seen_ids st) (candidates repr f lines)),
        skipped_from_file := skipped_from_file st +
           (length (candidates repr f lines) - length (keep_new (seen_ids st) (candidates repr f lines)))\<rparr>"
proof (induction lines arbitrary: st)
  case Nil
  then show ?case by simp
next
  case (Cons l lines)
  show ?case
  proof (cases l)
    case Blank
    then show ?thesis by (simp add: Cons.IH)
  next
    case (Malformed raw)
    then show ?thesis by (simp add: Cons.IH)
  next
    case (Valid r)
    then show ?thesis
      by (simp add: Cons.IH Let_def Suc_diff_le trans_le_add2 length_keep_new insert_absorb)
  qed
qed


lemma merge_file_eq:
  "merge_file repr f lines st =
     st\<lparr>outfile := outfile st @ map Dumped (keep_new (seen_ids st) (candidates repr f lines)),
        seen_ids := seen_ids st \<union> fst ` set (candidates repr f lines),
        total_written := total_written st + length (keep_new (seen_ids st) (candidates repr f lines)),
        total_skipped := total_skipped st +
           (length (candidates repr f lines) - length (keep_new (seen_ids st) (candidates repr f lines))),
        written_from_file := length (keep_new (seen_ids st) (candidates repr f lines)),
        skipped_from_file :=
           length (candidates repr f lines) - length (keep_new (seen_ids st) (candidates repr f lines)),
        console := console st @
           [(length (keep_new (seen_ids st) (candidates repr f lines)),
             length (candidates repr f lines) - length (keep_new (seen_ids st) (candidates repr f lines)))]\<rparr>"
  by (simp add: merge_file_def fold_merge_line Let_def)

lemma merge_pass2_eq:
  assumes "\<forall>p \<in> set file_paths. m p = Some (fld p)"
  shows "\<exists>st'. merge_pass2 repr fs m file_paths st = Inr st' \<and>
           outfile st' = outfile st @
              map Dumped (keep_new (seen_ids st) (all_candidates repr fs fld file_paths)) \<and>
           seen_ids st' = seen_ids st \<union> fst ` set (all_candidates repr fs fld file_paths) \<and>
           total_written st' = total_written st +
              length (keep_new (seen_ids st) (all_candidates repr fs fld file_paths)) \<and>
           total_skipped st' = total_skipped st +
              (length (all_candidates repr fs fld file_paths) -
               length (keep_new (seen_ids st) (all_candidates repr fs fld file_paths)))"
  using assms
proof (induction file_paths arbitrary: st)
  case Nil
  then show ?case by (simp add: all_candidates_def)
next
  case (Cons p ps)
  let ?st1 = "merge_file repr (fld p) (fs p) st"
  from Cons.prems have mp: "m p = Some (fld p)" and rest: "\<forall>q \<in> set ps. m q = Some (fld q)"
    by simp_all
  from Cons.IH [OF rest, of ?st1] obtain st' where
    run: "merge_pass2 repr fs m ps ?st1 = Inr st'" and
    out: "outfile st' = outfile ?st1 @
            map Dumped (keep_new (seen_ids ?st1) (all_candidates repr fs fld ps))" and
    seen: "seen_ids st' = seen_ids ?st1 \<union> fst ` set (all_candidates repr fs fld ps)" and
    wr: "total_written st' = total_written ?st1 +
            length (keep_new (seen_ids ?st1) (all_candidates repr fs fld ps))" and
    sk: "total_skipped st' = total_skipped ?st1 +
            (length (all_candidates repr fs fld ps) -
             length (keep_new (seen_ids ?st1) (all_candidates repr fs fld ps)))"
    by blast
  have split: "all_candidates repr fs fld (p # ps) =
      candidates repr (fld p) (fs p) @ all_candidates repr fs fld ps"
    by (simp add: all_candidates_def)
  have le1: "length (keep_new (seen_ids st) (candidates repr (fld p) (fs p)))
      \<le> length (candidates repr (fld p) (fs p))"
    by (rule length_keep_new)
  have le2: "length (keep_new (seen_ids st \<union> fst ` set (candidates repr (fld p) (fs p)))
                 (all_candidates repr fs fld ps))
      \<le> length (all_candidates repr fs fld ps)"
    by (rule length_keep_new)
  have "merge_pass2 repr fs m (p # ps) st = Inr st'"
    using mp run by simp
  moreover have "outfile st' = outfile st @
      map Dumped (keep_new (seen_ids st) (all_candidates repr fs fld (p # ps)))"
    by (simp add: out split keep_new_append merge_file_eq)
  moreover have "seen_ids st' = seen_ids st \<union> fst ` set (all_candidates repr fs fld (p # ps))"
    by (simp add: seen split merge_file_eq image_Un Un_assoc)
  moreover have "total_written st' = total_written st +
      length (keep_new (seen_ids st) (all_candidates repr fs fld (p # ps)))"
    by (simp add: wr split keep_new_append merge_file_eq)
  moreover have "total_skipped st' = total_skipped st +
      (length (all_candidates repr fs fld (p # ps)) -
       length (keep_new (seen_ids st) (all_candidates repr fs fld (p # ps))))"
    using le1 le2 by (simp add: sk split keep_new_append merge_file_eq)
  ultimately show ?case by blast
qed

lemma collect_all_eq:
  assumes "\<forall>p \<in> set file_paths. \<exists>ids. collect_ids_from_file repr p (fs p) = Inr (ids, fld p)"
  shows "\<exists>m'. collect_all repr fs file_paths m = Inr m' \<and> (\<forall>p \<in> set file_paths. m' p = Some (fld p))
            \<and> (\<forall>p. p \<notin> set file_paths \<longrightarrow> m' p = m p)"
  using assms
proof (induction file_paths arbitrary: m)
  case Nil
  then show ?case by simp
next
  case (Cons p ps)
  from Cons.prems obtain ids where c: "collect_ids_from_file repr p (fs p) = Inr (ids, fld p)"
    by auto
  from Cons.prems have rest:
    "\<forall>q \<in> set ps. \<exists>ids. collect_ids_from_file repr q (fs q) = Inr (ids, fld q)"
    by simp
  from Cons.IH [OF rest, of "m(p \<mapsto> fld p)"] obtain m' where
    run: "collect_all repr fs ps (m(p \<mapsto> fld p)) = Inr m'" and
    inn: "\<forall>q \<in> set ps. m' q = Some (fld q)" and
    out: "\<forall>q. q \<notin> set ps \<longrightarrow> m' q = (m(p \<mapsto> fld p)) q"
    by blast
  have "collect_all repr fs (p # ps) m = Inr m'"
    using c run by simp
  moreover have "\<forall>q \<in> set (p # ps). m' q = Some (fld q)"
    using inn out by (metis fun_upd_same set_ConsD)
  moreover have "\<forall>q. q \<notin> set (p # ps) \<longrightarrow> m' q = m q"
    using out by simp
  ultimately show ?case by blast
qed

text \<open>
  Claim C1. Merging deduplicates by the string of the identity value, first seen
  wins, across the files in the order the caller gives them: when the first pass
  succeeds on every file (\<open>fld p\<close> being the identity field it finds for file
  \<open>p\<close>), the merge returns, and what it writes is exactly the records with an
  identity whose identity string occurs at no earlier record, taken file after
  file and in line order within a file; the number written is their number, and
  the number skipped is the number of the remaining records with an identity.
\<close>

theorem merge_first_seen_wins:
  assumes "file_paths \<noteq> []"
    and "\<forall>p \<in> set file_paths. \<exists>ids. collect_ids_from_file repr p (fs p) = Inr (ids, fld p)"
  shows "\<exists>st. merge_jsonl_files repr fs file_paths = Inr st \<and>
           outfile st = map Dumped (first_seen (all_candidates repr fs fld file_paths)) \<and>
           total_written st = length (first_seen (all_candidates repr fs fld file_paths)) \<and>
           total_skipped st = length (all_candidates repr fs fld file_paths) -
                              length (first_seen (all_candidates repr fs fld file_paths))"
proof -
  from collect_all_eq [OF assms(2), of Map.empty] obtain m where
    c: "collect_all repr fs file_paths Map.empty = Inr m" and
    m: "\<forall>p \<in> set file_paths. m p = Some (fld p)"
    by blast
  let ?st0 = "\<lparr>outfile = [], seen_ids = {}, total_written = 0, total_skipped = 0,
               written_from_file = 0, skipped_from_file = 0, console = []\<rparr> :: 'a merge_state"
  from merge_pass2_eq [OF m, of repr fs ?st0] obtain st' where
    "merge_pass2 repr fs m file_paths ?st0 = Inr st'"
    "outfile st' = map Dumped (keep_new {} (all_candidates repr fs fld file_paths))"
    "total_written st' = length (keep_new {} (all_candidates repr fs fld file_paths))"
    "total_skipped st' = length (all_candidates repr fs fld file_paths) -
       length (keep_new {} (all_candidates repr fs fld file_paths))"
    by auto
  then show ?thesis
    using c assms(1) by (simp add: merge_jsonl_files_def keep_new_first_seen)
qed


text \<open>
  The example of the claim: the records with ids 1, 2 merged with those with ids
  2, 3 give the records with ids 1, 2, 3 in that order, and one duplicate skipped.
\<close>

theorem merge_first_seen_wins_witness:
  "collect_ids_from_file (\<lambda>v. []) ''a.jsonl''
     [Valid [(''id'', JInt 1), (''text'', JStr ''hi'')],
      Valid [(''id'', JInt 2), (''text'', JStr ''bye'')]] = Inr ({''1'', ''2''}, ''id'') \<and>
   collect_ids_from_file (\<lambda>v. []) ''b.jsonl''
     [Valid [(''id'', JInt 2), (''text'', JStr ''bye'')],
      Valid [(''id'', JInt 3), (''text'', JStr ''yo'')]] = Inr ({''2'', ''3''}, ''id'') \<and>
   (\<exists>st. merge_jsonl_files (\<lambda>v. [])
          (\<lambda>p. if p = ''a.jsonl''
               then [Valid [(''id'', JInt 1), (''text'', JStr ''hi'')],
                     Valid [(''id'', JInt 2), (''text'', JStr ''bye'')]]
               else [Valid [(''id'', JInt 2), (''text'', JStr ''bye'')],
                     Valid [(''id'', JInt 3), (''text'', JStr ''yo'')]])
          [''a.jsonl'', ''b.jsonl''] = Inr st \<and>
        outfile st = [Dumped [(''id'', JInt 1), (''text'', JStr ''hi'')],
                      Dumped [(''id'', JInt 2), (''text'', JStr ''bye'')],
                      Dumped [(''id'', JInt 3), (''text'', JStr ''yo'')]] \<and>
        total_written st = 3 \<and> total_skipped st = 1)"
proof -
  let ?fs = "\<lambda>p. if p = ''a.jsonl''
               then [Valid [(''id'', JInt 1), (''text'', JStr ''hi'')],
                     Valid [(''id'', JInt 2), (''text'', JStr ''bye'')]]
               else [Valid [(''id'', JInt 2), (''text'', JStr ''bye'')],
                     Valid [(''id'', JInt 3), (''text'', JStr ''yo'')]]"
  have paths: "[''a.jsonl'', ''b.jsonl''] \<noteq> []" by simp
  have pass1: "\<forall>p \<in> set [''a.jsonl'', ''b.jsonl''].
      \<exists>ids. collect_ids_from_file (\<lambda>v. []) p (?fs p) = Inr (ids, (\<lambda>p. ''id'') p)"
    by (simp add: collect_ids_from_file_def get_id_field_name_def dict_in_def dict_get_def)
  have cands: "all_candidates (\<lambda>v. []) ?fs (\<lambda>p. ''id'') [''a.jsonl'', ''b.jsonl''] =
      [(''1'', [(''id'', JInt 1), (''text'', JStr ''hi'')]),
       (''2'', [(''id'', JInt 2), (''text'', JStr ''bye'')]),
       (''2'', [(''id'', JInt 2), (''text'', JStr ''bye'')]),
       (''3'', [(''id'', JInt 3), (''text'', JStr ''yo'')])]"
    by (simp add: all_candidates_def dict_get_def str_int_def str_nat.simps digit_char_def)
  have a: "collect_ids_from_file (\<lambda>v. []) ''a.jsonl''
     [Valid [(''id'', JInt 1), (''text'', JStr ''hi'')],
      Valid [(''id'', JInt 2), (''text'', JStr ''bye'')]] = Inr ({''1'', ''2''}, ''id'')"
    by (auto simp: collect_ids_from_file_def get_id_field_name_def dict_in_def dict_get_def
        str_int_def str_nat.simps digit_char_def)
  have b: "collect_ids_from_file (\<lambda>v. []) ''b.jsonl''
     [Valid [(''id'', JInt 2), (''text'', JStr ''bye'')],
      Valid [(''id'', JInt 3), (''text'', JStr ''yo'')]] = Inr ({''2'', ''3''}, ''id'')"
    by (auto simp: collect_ids_from_file_def get_id_field_name_def dict_in_def dict_get_def
        str_int_def str_nat.simps digit_char_def)
  have "\<exists>st. merge_jsonl_files (\<lambda>v. []) ?fs [''a.jsonl'', ''b.jsonl''] = Inr st \<and>
        outfile st = [Dumped [(''id'', JInt 1), (''text'', JStr ''hi'')],
                      Dumped [(''id'', JInt 2), (''text'', JStr ''bye'')],
                      Dumped [(''id'', JInt 3), (''text'', JStr ''yo'')]] \<and>
        total_written st = 3 \<and> total_skipped st = 1"
    using merge_first_seen_wins [OF paths pass1]
    unfolding cands by (simp add: first_seen_def numeral_3_eq_3)
  with a b show ?thesis by blast
qed


subsection \<open>The first pass, and files without their blank lines\<close>

lemma candidates_append:
  "candidates repr f (xs @ ys) = candidates repr f xs @ candidates repr f ys"
  by (simp add: candidates_def)

lemma valid_records_set: "set (valid_records lines) = {r. Valid r \<in> set lines}"
proof (induction lines)
  case Nil
  then show ?case by simp
next
  case (Cons l lines)
  then show ?case by (cases l) auto
qed


lemma valid_records_not_blank: "valid_records (filter not_blank lines) = valid_records lines"
proof (induction lines)
  case Nil
  then show ?case by simp
next
  case (Cons l lines)
  then show ?case by (cases l) (simp_all add: not_blank_def)
qed

lemma candidates_not_blank: "candidates repr f (filter not_blank lines) = candidates repr f lines"
  by (simp add: candidates_def valid_records_not_blank)

lemma collect_ids_loop_Some:
  "collect_ids_loop repr p lines ids (Some f) =
     Inr (ids \<union> fst ` set (candidates repr f lines), Some f)"
proof (induction lines arbitrary: ids)
  case Nil
  then show ?case by simp
next
  case (Cons l lines)
  then show ?case by (cases l) (auto simp: Let_def)
qed

lemma collect_ids_loop_None:
  "collect_ids_loop repr p lines ids None =
     (case valid_records lines of
        [] \<Rightarrow> Inr (ids, None)
      | r # rest \<Rightarrow>
          (case get_id_field_name r of
             None \<Rightarrow> Inl (ValueError (''No valid ID field (_id, uuid, or id) found in '' @ p))
           | Some f \<Rightarrow> Inr (ids \<union> fst ` set (candidates repr f lines), Some f)))"
proof (induction lines)
  case Nil
  then show ?case by simp
next
  case (Cons l lines)
  then show ?case
    by (cases l) (auto simp: Let_def collect_ids_loop_Some split: option.splits list.splits)
qed

lemma collect_ids_from_file_eq:
  "collect_ids_from_file repr file_path lines =
     (case valid_records lines of
        [] \<Rightarrow> Inl (ValueError (''No valid records found in '' @ file_path))
      | r # rest \<Rightarrow>
          (case get_id_field_name r of
             None \<Rightarrow> Inl (ValueError (''No valid ID field (_id, uuid, or id) found in '' @ file_path))
           | Some f \<Rightarrow> Inr (fst ` set (candidates repr f lines), f)))"
  by (simp add: collect_ids_from_file_def collect_ids_loop_None split: list.splits option.splits)

lemma collect_ids_from_file_not_blank:
  "collect_ids_from_file repr p (filter not_blank lines) = collect_ids_from_file repr p lines"
  by (simp add: collect_ids_from_file_eq valid_records_not_blank candidates_not_blank
      split: list.splits option.splits)

lemma merge_file_not_blank:
  "merge_file repr f (filter not_blank lines) st = merge_file repr f lines st"
  by (simp add: merge_file_eq candidates_not_blank)

lemma collect_all_not_blank:
  "collect_all repr (\<lambda>p. filter not_blank (fs p)) file_paths m = collect_all repr fs file_paths m"
  by (induction file_paths arbitrary: m)
     (simp_all add: collect_ids_from_file_not_blank split: sum.splits py_error.splits prod.splits)

lemma merge_pass2_not_blank:
  "merge_pass2 repr (\<lambda>p. filter not_blank (fs p)) m file_paths st = merge_pass2 repr fs m file_paths st"
  by (induction file_paths arbitrary: st) (simp_all add: merge_file_not_blank split: option.splits)

lemma set_keep_new: "set (keep_new S cs) \<subseteq> snd ` set cs"
  by (induction S cs rule: keep_new.induct) auto

lemma snd_candidates: "snd ` set (candidates repr f lines) \<subseteq> {r. Valid r \<in> set lines}"
  by (auto simp: candidates_def valid_records_set)

lemma outfile_merge_file:
  "set (outfile (merge_file repr f lines st)) \<subseteq> set (outfile st) \<union> Dumped ` {r. Valid r \<in> set lines}"
  using set_keep_new [of "seen_ids st" "candidates repr f lines"] snd_candidates [of repr f lines]
  by (auto simp: merge_file_eq)

lemma outfile_merge_pass2:
  "merge_pass2 repr fs m file_paths st = Inr st' \<Longrightarrow>
   set (outfile st') \<subseteq> set (outfile st) \<union> Dumped ` {r. \<exists>p \<in> set file_paths. Valid r \<in> set (fs p)}"
proof (induction file_paths arbitrary: st)
  case Nil
  then show ?case by simp
next
  case (Cons p ps)
  from Cons.prems obtain f where f: "m p = Some f"
    and run: "merge_pass2 repr fs m ps (merge_file repr f (fs p) st) = Inr st'"
    by (auto split: option.splits)
  from Cons.IH [OF run] outfile_merge_file [of repr f "fs p" st]
  show ?case by auto
qed

section \<open>Properties of the Identity Resolver\<close>

text \<open>
  Claim C2, as the code has it. The identity field of a file is fixed once, from
  its first line that parses, as the first of \<^verbatim>\<open>_id\<close>, \<^verbatim>\<open>uuid\<close>, \<^verbatim>\<open>id\<close> present
  in that record, and is used for every record of the file. The error that
  names the file is raised exactly when the file has no line that parses or when
  that first record has none of the three fields; the records after the first
  are not asked.
\<close>

theorem collect_ids_from_file_first_record:
  "collect_ids_from_file repr file_path lines =
     (case valid_records lines of
        [] \<Rightarrow> Inl (ValueError (''No valid records found in '' @ file_path))
      | r # rest \<Rightarrow>
          (case get_id_field_name r of
             None \<Rightarrow> Inl (ValueError (''No valid ID field (_id, uuid, or id) found in '' @ file_path))
           | Some f \<Rightarrow> Inr (fst ` set (candidates repr f lines), f)))
   \<and> get_id_field_name record =
       (if dict_in ''_id'' record then Some ''_id''
        else if dict_in ''uuid'' record then Some ''uuid''
        else if dict_in ''id'' record then Some ''id'' else None)"
  by (simp add: collect_ids_from_file_eq get_id_field_name_def)

text \<open>
  The claim as stated fails: the second record of this file has the field
  \<^verbatim>\<open>id\<close>, and the error is raised all the same, because the first has none.
\<close>

theorem collect_ids_from_file_counterexample:
  "collect_ids_from_file (\<lambda>v. []) ''f.jsonl''
     [Valid [(''x'', JInt 1)], Valid [(''id'', JInt 2)]] =
     Inl (ValueError ''No valid ID field (_id, uuid, or id) found in f.jsonl'') \<and>
   get_id_field_name [(''id'', JInt 2)] = Some ''id''"
  by (simp add: collect_ids_from_file_def get_id_field_name_def dict_in_def)

section \<open>Records without identity, and blank lines, in the second pass\<close>

text \<open>
  Claim C4. In the second pass a record whose lookup under the identity field of
  the file gives \<^verbatim>\<open>None\<close> (the field is absent or null) leaves every variable as
  it is: nothing is written, no identity is added, no counter of written or
  skipped records moves, for the file or in total. Taking such a record out of
  a file changes nothing of what the pass does with the file.
\<close>

theorem merge_drops_records_without_identity:
  assumes "dict_get r id_field = JNull"
  shows "merge_line repr id_field (Valid r) st = st \<and>
         merge_file repr id_field (before @ Valid r # after) st =
         merge_file repr id_field (before @ after) st"
  using assms by (simp add: merge_file_eq candidates_append)

theorem merge_drops_records_without_identity_witness:
  "dict_get [(''name'', JStr ''n''), (''uuid'', JNull)] ''uuid'' = (JNull :: 'a json) \<and>
   merge_file (\<lambda>v. []) ''uuid''
     [Valid [(''uuid'', JStr ''a'')], Valid [(''name'', JStr ''n''), (''uuid'', JNull)],
      Valid [(''uuid'', JStr ''a'')]]
     \<lparr>outfile = [], seen_ids = {}, total_written = 0, total_skipped = 0,
      written_from_file = 0, skipped_from_file = 0, console = []\<rparr> =
     (\<lparr>outfile = [Dumped [(''uuid'', JStr ''a'')]], seen_ids = {''a''}, total_written = 1,
      total_skipped = 1, written_from_file = 1, skipped_from_file = 1, console = [(1, 1)]\<rparr> :: 'a merge_state)"
proof -
  let ?st0 = "\<lparr>outfile = [], seen_ids = {}, total_written = 0, total_skipped = 0,
      written_from_file = 0, skipped_from_file = 0, console = []\<rparr> :: 'a merge_state"
  have h: "dict_get [(''name'', JStr ''n''), (''uuid'', JNull :: 'a json)] ''uuid'' = JNull"
    by (simp add: dict_get_def)
  have without: "merge_file (\<lambda>v. []) ''uuid''
       ([Valid [(''uuid'', JStr ''a'')]] @ [Valid [(''uuid'', JStr ''a'')]]) ?st0 =
     \<lparr>outfile = [Dumped [(''uuid'', JStr ''a'')]], seen_ids = {''a''}, total_written = 1,
      total_skipped = 1, written_from_file = 1, skipped_from_file = 1, console = [(1, 1)]\<rparr>"
    by (simp add: merge_file_def dict_get_def Let_def)
  have "merge_file (\<lambda>v. []) ''uuid''
       ([Valid [(''uuid'', JStr ''a'')]] @ Valid [(''name'', JStr ''n''), (''uuid'', JNull)] #
        [Valid [(''uuid'', JStr ''a'')]]) ?st0 =
     merge_file (\<lambda>v. []) ''uuid''
       ([Valid [(''uuid'', JStr ''a'')]] @ [Valid [(''uuid'', JStr ''a'')]]) ?st0"
    using merge_drops_records_without_identity [OF h] by (rule conjunct2)
  with without h show ?thesis by (simp only: append.simps simp_thms)
qed

text \<open>
  Claim C10. Blank lines do not exist for the merge: its result is the result on
  the files with their blank lines removed, and everything it writes is the dump
  of a record of an input file, so no blank line reaches the output. The
  single-file loop, in contrast, writes a line end for each blank line.
\<close>

theorem merge_skips_blank_lines:
  "merge_jsonl_files repr (\<lambda>p. filter not_blank (fs p)) file_paths =
     merge_jsonl_files repr fs file_paths \<and>
   (\<forall>st. merge_jsonl_files repr fs file_paths = Inr st \<longrightarrow>
      (\<forall>w \<in> set (outfile st). \<exists>p \<in> set file_paths. \<exists>r. w = Dumped r \<and> Valid r \<in> set (fs p))) \<and>
   writes (process_line fl_true py_eq py_in spec Blank pst) = writes pst @ [Text newline]"
proof -
  have "merge_jsonl_files repr (\<lambda>p. filter not_blank (fs p)) file_paths =
     merge_jsonl_files repr fs file_paths"
    by (simp add: merge_jsonl_files_def collect_all_not_blank merge_pass2_not_blank
        split: sum.splits)
  moreover have "\<forall>st. merge_jsonl_files repr fs file_paths = Inr st \<longrightarrow>
      (\<forall>w \<in> set (outfile st). \<exists>p \<in> set file_paths. \<exists>r. w = Dumped r \<and> Valid r \<in> set (fs p))"
  proof (intro allI impI)
    fix st assume "merge_jsonl_files repr fs file_paths = Inr st"
    then obtain m where "merge_pass2 repr fs m file_paths
         \<lparr>outfile = [], seen_ids = {}, total_written = 0, total_skipped = 0,
          written_from_file = 0, skipped_from_file = 0, console = []\<rparr> = Inr st"
      by (auto simp: merge_jsonl_files_def split: sum.splits if_splits)
    from outfile_merge_pass2 [OF this]
    show "\<forall>w \<in> set (outfile st). \<exists>p \<in> set file_paths. \<exists>r. w = Dumped r \<and> Valid r \<in> set (fs p)"
      by (simp add: subset_iff image_iff) blast
  qed
  ultimately show ?thesis by simp
qed


theorem merge_skips_blank_lines_witness:
  "merge_jsonl_files (\<lambda>v. [])
     (\<lambda>p. filter not_blank
        (if p = ''a.jsonl'' then [Blank, Valid [(''id'', JInt 1)], Blank]
         else [Valid [(''id'', JInt 1)], Blank, Blank, Valid [(''id'', JInt 2)]]))
     [''a.jsonl'', ''b.jsonl''] =
   merge_jsonl_files (\<lambda>v. [])
     (\<lambda>p. if p = ''a.jsonl'' then [Blank, Valid [(''id'', JInt 1)], Blank]
          else [Valid [(''id'', JInt 1)], Blank, Blank, Valid [(''id'', JInt 2)]])
     [''a.jsonl'', ''b.jsonl''] \<and>
   (\<exists>st. merge_jsonl_files (\<lambda>v. [])
     (\<lambda>p. if p = ''a.jsonl'' then [Blank, Valid [(''id'', JInt 1)], Blank]
          else [Valid [(''id'', JInt 1)], Blank, Blank, Valid [(''id'', JInt 2)]])
     [''a.jsonl'', ''b.jsonl''] = Inr st \<and>
     outfile st = [Dumped [(''id'', JInt 1)], Dumped [(''id'', JInt 2)]])"
proof -
  let ?fs = "\<lambda>p. if p = ''a.jsonl'' then [Blank, Valid [(''id'', JInt 1)], Blank]
          else [Valid [(''id'', JInt 1)], Blank, Blank, Valid [(''id'', JInt 2)]]"
  have run: "\<exists>st. merge_jsonl_files (\<lambda>v. []) ?fs [''a.jsonl'', ''b.jsonl''] = Inr st \<and>
     outfile st = [Dumped [(''id'', JInt 1)], Dumped [(''id'', JInt 2)]]"
    by (simp add: merge_jsonl_files_def collect_ids_from_file_def get_id_field_name_def
        dict_in_def dict_get_def merge_file_def Let_def str_int_def str_nat.simps digit_char_def)
  have "merge_jsonl_files (\<lambda>v. []) (\<lambda>p. filter not_blank (?fs p)) [''a.jsonl'', ''b.jsonl''] =
        merge_jsonl_files (\<lambda>v. []) ?fs [''a.jsonl'', ''b.jsonl'']"
    using merge_skips_blank_lines [of "\<lambda>v. []" ?fs "[''a.jsonl'', ''b.jsonl'']"] by (rule conjunct1)
  with run show ?thesis by blast
qed


section \<open>Properties of the Record Transformer\<close>

lemma map_of_dict_set: "map_of (dict_set k v d) = (map_of d)(k \<mapsto> v)"
  by (induction d) (auto simp: fun_eq_iff)

lemma dict_set_fresh: "k \<notin> fst ` set d \<Longrightarrow> dict_set k v d = d @ [(k, v)]"
  by (induction d) auto

lemma map_fst_dict_set:
  "map fst (dict_set k v d) = (if k \<in> fst ` set d then map fst d else map fst d @ [k])"
  by (induction d) (force simp: image_iff)+

lemma keys_dict_set: "fst ` set (dict_set k v d) = insert k (fst ` set d)"
  using arg_cong [OF map_fst_dict_set [of k v d], of set] by (auto split: if_splits)

lemma map_of_add_keys_other:
  "k \<notin> fst ` set keys_to_add \<Longrightarrow> map_of (add_keys r keys_to_add) k = map_of r k"
  unfolding add_keys_def
  by (induction keys_to_add arbitrary: r) (auto simp: map_of_dict_set)

lemma map_of_add_keys_added:
  "distinct (map fst keys_to_add) \<Longrightarrow> (k, v) \<in> set keys_to_add \<Longrightarrow>
   map_of (add_keys r keys_to_add) k = Some v"
proof (induction keys_to_add arbitrary: r)
  case Nil
  then show ?case by simp
next
  case (Cons a as)
  obtain k' v' where a: "a = (k', v')" by (cases a)
  show ?case
  proof (cases "(k, v) = a")
    case True
    with Cons.prems a have "k \<notin> fst ` set as" by auto
    from map_of_add_keys_other [OF this, of "dict_set k v r"] True a
    show ?thesis by (simp add: add_keys_def map_of_dict_set)
  next
    case False
    with Cons.prems have "(k, v) \<in> set as" "distinct (map fst as)" by auto
    from Cons.IH [OF this(2) this(1), of "dict_set k' v' r"] a
    show ?thesis by (simp add: add_keys_def)
  qed
qed

lemma dict_in_add_keys: "dict_in k r \<Longrightarrow> dict_in k (add_keys r keys_to_add)"
  unfolding add_keys_def dict_in_def
  by (induction keys_to_add arbitrary: r) (auto simp: map_of_dict_set)

text \<open>
  Claim C7, as the code has it. After \<^verbatim>\<open>add_keys\<close>, reading back each added key
  gives the configured value, and every key of the original record is still
  present; it has its original value unless the additions set that key too, in
  which case the configured value has replaced it.
\<close>

theorem add_keys_read_back:
  assumes "distinct (map fst keys_to_add)"
  shows "(\<forall>(k, v) \<in> set keys_to_add. map_of (add_keys record keys_to_add) k = Some v) \<and>
         (\<forall>k. dict_in k record \<longrightarrow>
            dict_in k (add_keys record keys_to_add) \<and>
            (\<not> dict_in k keys_to_add \<longrightarrow>
               map_of (add_keys record keys_to_add) k = map_of record k))"
proof (intro conjI allI impI)
  show "\<forall>(k, v) \<in> set keys_to_add. map_of (add_keys record keys_to_add) k = Some v"
    using assms by (auto simp: map_of_add_keys_added)
next
  fix k assume "dict_in k record"
  then show "dict_in k (add_keys record keys_to_add)" by (rule dict_in_add_keys)
next
  fix k assume "\<not> dict_in k keys_to_add"
  then have "k \<notin> fst ` set keys_to_add"
    by (simp add: dict_in_def map_of_eq_None_iff)
  then show "map_of (add_keys record keys_to_add) k = map_of record k"
    by (rule map_of_add_keys_other)
qed

text \<open>
  The claim as stated fails where the additions name a key of the record: the
  value of \<^verbatim>\<open>a\<close> was 1 and is 2 afterwards.
\<close>

theorem add_keys_counterexample:
  "map_of [(''a'', JInt 1)] ''a'' = Some (JInt 1) \<and>
   map_of (add_keys [(''a'', JInt 1)] [(''a'', JInt 2)]) ''a'' = Some (JInt 2)"
  by (simp add: add_keys_def)

theorem add_keys_read_back_witness:
  "distinct (map fst [(''b'', JInt 2), (''c'', JStr ''x'')]) \<and>
   add_keys [(''a'', JInt 1), (''b'', JInt 0)] [(''b'', JInt 2), (''c'', JStr ''x'')] =
     [(''a'', JInt 1), (''b'', JInt 2), (''c'', JStr ''x'')] \<and>
   map_of (add_keys [(''a'', JInt 1), (''b'', JInt 0)] [(''b'', JInt 2), (''c'', JStr ''x'')]) ''c''
     = Some (JStr ''x'') \<and>
   map_of (add_keys [(''a'', JInt 1), (''b'', JInt 0)] [(''b'', JInt 2), (''c'', JStr ''x'')]) ''a''
     = Some (JInt 1)"
proof -
  have d: "distinct (map fst [(''b'', JInt 2), (''c'', JStr ''x'')])" by simp
  have e: "add_keys [(''a'', JInt 1), (''b'', JInt 0)] [(''b'', JInt 2), (''c'', JStr ''x'')] =
     [(''a'', JInt 1), (''b'', JInt 2), (''c'', JStr ''x'')]"
    by (simp add: add_keys_def)
  note t = add_keys_read_back [OF d, of "[(''a'', JInt 1), (''b'', JInt 0)]"]
  from t [THEN conjunct1] t [THEN conjunct2, THEN spec, of "''a''"]
  have "map_of (add_keys [(''a'', JInt 1), (''b'', JInt 0)] [(''b'', JInt 2), (''c'', JStr ''x'')]) ''c''
     = Some (JStr ''x'')"
   and "map_of (add_keys [(''a'', JInt 1), (''b'', JInt 0)] [(''b'', JInt 2), (''c'', JStr ''x'')]) ''a''
     = Some (JInt 1)"
    by (auto simp: dict_in_def)
  with d e show ?thesis by simp
qed

lemma fold_rename_fresh:
  "distinct (map fst acc @ map (\<lambda>p. renamed_key m (fst p)) r) \<Longrightarrow>
   fold (\<lambda>(key, val) result.
           (case map_of m key of
              Some new_key \<Rightarrow> dict_set new_key val result
            | None \<Rightarrow> dict_set key val result)) r acc =
   acc @ map (\<lambda>(k, v). (renamed_key m k, v)) r"
proof (induction r arbitrary: acc)
  case Nil
  then show ?case by simp
next
  case (Cons a r)
  obtain k v where a: "a = (k, v)" by (cases a)
  from Cons.prems a have fresh: "renamed_key m k \<notin> fst ` set acc"
    and d: "distinct (map fst (acc @ [(renamed_key m k, v)]) @ map (\<lambda>p. renamed_key m (fst p)) r)"
    by auto
  have step: "(case map_of m k of Some new_key \<Rightarrow> dict_set new_key v acc
                | None \<Rightarrow> dict_set k v acc) = acc @ [(renamed_key m k, v)]"
    using dict_set_fresh [OF fresh, of v] by (simp add: renamed_key_def split: option.splits)
  show ?case
    using Cons.IH [OF d] by (simp add: a step)
qed

lemma modify_keys_no_collision:
  "distinct (map (\<lambda>p. renamed_key m (fst p)) r) \<Longrightarrow>
   modify_keys r m = map (\<lambda>(k, v). (renamed_key m k, v)) r"
  unfolding modify_keys_def using fold_rename_fresh [of "[]" m r] by simp

lemma renamed_back:
  assumes "distinct (map snd m)"
    and "k \<in> snd ` set m \<longrightarrow> k \<in> fst ` set m"
  shows "renamed_key (inverse_renames m) (renamed_key m k) = k"
proof (cases "map_of m k")
  case None
  then have "k \<notin> fst ` set m" by (simp add: map_of_eq_None_iff)
  with assms(2) have "k \<notin> snd ` set m" by blast
  then have "k \<notin> fst ` set (inverse_renames m)"
    by (force simp: inverse_renames_def)
  then have "map_of (inverse_renames m) k = None" by (simp add: map_of_eq_None_iff)
  with None show ?thesis by (simp add: renamed_key_def)
next
  case (Some k')
  then have "(k, k') \<in> set m" by (rule map_of_SomeD)
  then have mem: "(k', k) \<in> set (inverse_renames m)"
    by (force simp: inverse_renames_def)
  have "map fst (inverse_renames m) = map snd m"
    by (simp add: inverse_renames_def case_prod_beta)
  with assms(1) have "distinct (map fst (inverse_renames m))" by simp
  from map_of_is_SomeI [OF this mem] Some show ?thesis by (simp add: renamed_key_def)
qed

lemma modify_keys_inverse:
  assumes "distinct (map fst record)"
    and "distinct (map snd keys_to_modify)"
    and "\<forall>k \<in> fst ` set record. k \<in> snd ` set keys_to_modify \<longrightarrow> k \<in> fst ` set keys_to_modify"
  shows "modify_keys (modify_keys record keys_to_modify) (inverse_renames keys_to_modify) = record"
proof -
  let ?f = "renamed_key keys_to_modify"
  let ?g = "renamed_key (inverse_renames keys_to_modify)"
  have rt: "?g (?f k) = k" if "k \<in> fst ` set record" for k
    using renamed_back [OF assms(2), of k] assms(3) that by blast
  have inj: "inj_on ?f (fst ` set record)"
    by (rule inj_on_inverseI [where g = ?g]) (rule rt)
  have rt2: "?g (?f (fst p)) = fst p" if "p \<in> set record" for p
    using rt [of "fst p"] that by simp
  have "distinct (map ?f (map fst record))"
    using assms(1) inj by (subst distinct_map) simp
  then have d1: "distinct (map (\<lambda>p. ?f (fst p)) record)"
    by (simp add: comp_def)
  have one: "modify_keys record keys_to_modify = map (\<lambda>(k, v). (?f k, v)) record"
    by (rule modify_keys_no_collision [OF d1])
  have keys2: "map (\<lambda>p. ?g (fst p)) (map (\<lambda>(k, v). (?f k, v)) record) = map fst record"
    using rt2 by (simp add: case_prod_beta)
  have d2: "distinct (map (\<lambda>p. ?g (fst p)) (map (\<lambda>(k, v). (?f k, v)) record))"
    unfolding keys2 by (rule assms(1))
  have two: "modify_keys (map (\<lambda>(k, v). (?f k, v)) record) (inverse_renames keys_to_modify) =
      map (\<lambda>(k, v). (?g k, v)) (map (\<lambda>(k, v). (?f k, v)) record)"
    by (rule modify_keys_no_collision [OF d2])
  have "map (\<lambda>(k, v). (?g k, v)) (map (\<lambda>(k, v). (?f k, v)) record) = record"
    using rt2 by (auto simp: case_prod_beta intro!: map_idI)
  with one two show ?thesis by simp
qed


lemma modify_keys_fold:
  "modify_keys r m = fold (\<lambda>(k, v) d. dict_set k v d) (emitted_items m r) []"
proof -
  have step: "(\<lambda>(key, val) result.
             (case map_of m key of
                Some new_key \<Rightarrow> dict_set new_key val result
              | None \<Rightarrow> dict_set key val result)) =
        (\<lambda>(k, v) d. dict_set k v d) \<circ> (\<lambda>(key, val). (renamed_key m key, val))"
    by (auto simp: fun_eq_iff renamed_key_def split: option.splits)
  show ?thesis
    unfolding modify_keys_def emitted_items_def step by (simp add: fold_map)
qed

lemma map_of_fold_dict_set:
  "map_of (fold (\<lambda>(k, v) d. dict_set k v d) xs acc) = map_of (rev xs @ acc)"
proof (induction xs arbitrary: acc)
  case Nil
  then show ?case by simp
next
  case (Cons x xs)
  obtain k v where x: "x = (k, v)" by (cases x)
  show ?case
    by (simp add: x Cons.IH map_of_dict_set fun_eq_iff map_add_def split: option.splits)
qed

lemma keys_fold_dict_set:
  "map fst (fold (\<lambda>(k, v) d. dict_set k v d) xs acc) =
     map fst acc @ keep_new (fst ` set acc) (map (\<lambda>(k, v). (k, k)) xs)"
proof (induction xs arbitrary: acc)
  case Nil
  then show ?case by simp
next
  case (Cons x xs)
  obtain k v where x: "x = (k, v)" by (cases x)
  show ?case
    by (simp add: x Cons.IH map_fst_dict_set keys_dict_set insert_absorb)
qed

lemma modify_keys_order:
  "map fst (modify_keys r m) = first_seen (map (\<lambda>(k, v). (k, k)) (emitted_items m r))"
  by (simp add: modify_keys_fold keys_fold_dict_set keep_new_first_seen)

lemma modify_keys_last_write:
  "map_of (modify_keys r m) = map_of (rev (emitted_items m r))"
  by (simp add: modify_keys_fold map_of_fold_dict_set)

text \<open>
  Claim C8, as the code has it. For every record and every rename map, the keys
  of the result of \<^verbatim>\<open>modify_keys\<close> are the emitted names in the order in which
  each is first emitted, and the value under a name is the unaltered value of
  the last key of the record emitted under it; so when no two keys are emitted
  under the same name the result is the record itself with its keys renamed, in
  the original order. Renaming with a map and then with its inverse gives the
  record back when the targets of the map are distinct and every key of the
  record that is a target of the map is also one of its sources.
\<close>

theorem modify_keys_round_trip:
  "map fst (modify_keys record keys_to_modify) =
     first_seen (map (\<lambda>(k, v). (k, k)) (emitted_items keys_to_modify record)) \<and>
   map_of (modify_keys record keys_to_modify) = map_of (rev (emitted_items keys_to_modify record)) \<and>
   (distinct (map fst (emitted_items keys_to_modify record)) \<longrightarrow>
      modify_keys record keys_to_modify = emitted_items keys_to_modify record) \<and>
   (distinct (map fst record) \<and> distinct (map snd keys_to_modify) \<and>
    (\<forall>k \<in> fst ` set record.
        k \<in> snd ` set keys_to_modify \<longrightarrow> k \<in> fst ` set keys_to_modify) \<longrightarrow>
      modify_keys (modify_keys record keys_to_modify) (inverse_renames keys_to_modify) = record)"
proof -
  have keys: "map fst (emitted_items keys_to_modify record) =
      map (\<lambda>p. renamed_key keys_to_modify (fst p)) record"
    by (simp add: emitted_items_def case_prod_beta)
  have "modify_keys record keys_to_modify = emitted_items keys_to_modify record"
    if "distinct (map fst (emitted_items keys_to_modify record))"
  proof -
    from that have "distinct (map (\<lambda>p. renamed_key keys_to_modify (fst p)) record)"
      by (simp only: keys)
    from modify_keys_no_collision [OF this] show ?thesis
      by (simp add: emitted_items_def)
  qed
  then show ?thesis
    using modify_keys_order [of "record" keys_to_modify]
      modify_keys_last_write [of "record" keys_to_modify]
      modify_keys_inverse [of "record" keys_to_modify]
    by blast
qed

text \<open>
  A rename without collision and its way back, and a rename where \<^verbatim>\<open>c\<close> is
  emitted under the name of the earlier key \<^verbatim>\<open>a\<close>: the name keeps the position
  of \<^verbatim>\<open>a\<close> and takes the value of \<^verbatim>\<open>c\<close>.
\<close>

theorem modify_keys_round_trip_witness:
  "distinct (map fst [(''a'', JInt 1 :: 'a json), (''b'', JInt 2)]) \<and>
   distinct (map snd [(''a'', ''x'')]) \<and>
   modify_keys [(''a'', JInt 1 :: 'a json), (''b'', JInt 2)] [(''a'', ''x'')] =
     [(''x'', JInt 1), (''b'', JInt 2)] \<and>
   modify_keys (modify_keys [(''a'', JInt 1 :: 'a json), (''b'', JInt 2)] [(''a'', ''x'')])
     (inverse_renames [(''a'', ''x'')]) = [(''a'', JInt 1), (''b'', JInt 2)] \<and>
   map fst (modify_keys [(''a'', JInt 1 :: 'a json), (''b'', JInt 2), (''c'', JInt 3)] [(''c'', ''a'')]) =
     [''a'', ''b''] \<and>
   map_of (modify_keys [(''a'', JInt 1 :: 'a json), (''b'', JInt 2), (''c'', JInt 3)] [(''c'', ''a'')]) ''a'' =
     Some (JInt 3)"
proof -
  let ?r = "[(''a'', JInt 1 :: 'a json), (''b'', JInt 2)]"
  let ?r3 = "[(''a'', JInt 1 :: 'a json), (''b'', JInt 2), (''c'', JInt 3)]"
  have d: "distinct (map fst ?r)" by simp
  have t: "distinct (map snd [(''a'', ''x'')])" by simp
  have c: "\<forall>k \<in> fst ` set ?r. k \<in> snd ` set [(''a'', ''x'')] \<longrightarrow> k \<in> fst ` set [(''a'', ''x'')]"
    by simp
  have n: "distinct (map fst (emitted_items [(''a'', ''x'')] ?r))"
    by (simp add: emitted_items_def renamed_key_def)
  note inst = modify_keys_round_trip [of ?r "[(''a'', ''x'')]"]
  from inst n have "modify_keys ?r [(''a'', ''x'')] = emitted_items [(''a'', ''x'')] ?r"
    by blast
  then have one: "modify_keys ?r [(''a'', ''x'')] = [(''x'', JInt 1), (''b'', JInt 2)]"
    by (simp add: emitted_items_def renamed_key_def)
  from inst d t c have two: "modify_keys (modify_keys ?r [(''a'', ''x'')])
     (inverse_renames [(''a'', ''x'')]) = ?r"
    by blast
  note coll = modify_keys_round_trip [of ?r3 "[(''c'', ''a'')]"]
  from coll have "map fst (modify_keys ?r3 [(''c'', ''a'')]) =
      first_seen (map (\<lambda>(k, v). (k, k)) (emitted_items [(''c'', ''a'')] ?r3))"
    by (rule conjunct1)
  then have three: "map fst (modify_keys ?r3 [(''c'', ''a'')]) = [''a'', ''b'']"
    by (simp add: first_seen_def emitted_items_def renamed_key_def numeral_3_eq_3)
  from coll have "map_of (modify_keys ?r3 [(''c'', ''a'')]) =
      map_of (rev (emitted_items [(''c'', ''a'')] ?r3))"
    by (rule conjunct2 [THEN conjunct1])
  then have four: "map_of (modify_keys ?r3 [(''c'', ''a'')]) ''a'' = Some (JInt 3)"
    by (simp add: emitted_items_def renamed_key_def)
  from d t one two three four show ?thesis by (simp only: simp_thms)
qed


text \<open>
  The claim as stated fails: the map has a single target, the record a single
  key, nothing collides, and the key \<^verbatim>\<open>b\<close>, which the map never produced from
  \<^verbatim>\<open>a\<close>, is renamed to \<^verbatim>\<open>a\<close> by the inverse.
\<close>

theorem modify_keys_counterexample:
  "distinct (map snd [(''a'', ''b'')]) \<and>
   modify_keys [(''b'', JInt 2)] [(''a'', ''b'')] = [(''b'', JInt 2)] \<and>
   modify_keys (modify_keys [(''b'', JInt 2)] [(''a'', ''b'')]) (inverse_renames [(''a'', ''b'')]) =
     [(''a'', JInt 2)]"
  by (simp add: modify_keys_def inverse_renames_def)

lemma append_message_role_entry:
  "append_message fl_true record role field messages =
     messages @ role_entry fl_true record role field"
  by (auto simp: append_message_def role_entry_def dict_in_def dict_get_def split: option.splits)

lemma chatml_entry_eq:
  "chatml_entry fl_true record (new_key, Fields fs) result =
     (if messages_for fl_true record fs \<noteq> []
      then dict_set new_key (JArr (messages_for fl_true record fs)) result else result)"
  by (induction fl_true "record" fs rule: messages_for.induct)
     (simp_all add: append_message_role_entry Let_def)

lemma map_of_chatml_entry_other:
  "k \<noteq> fst entry \<Longrightarrow> map_of (chatml_entry fl_true record entry result) k = map_of result k"
proof (cases entry)
  case (Pair new_key spec)
  assume "k \<noteq> fst entry"
  with Pair show ?thesis
    by (cases spec) (simp_all add: chatml_entry_eq map_of_dict_set)
qed

lemma map_of_fold_chatml_other:
  "k \<notin> fst ` set chatml_config \<Longrightarrow>
   map_of (fold (chatml_entry fl_true record) chatml_config result) k = map_of result k"
  by (induction chatml_config arbitrary: result) (simp_all add: map_of_chatml_entry_other)

lemma map_of_fold_chatml:
  "distinct (map fst chatml_config) \<Longrightarrow> (new_key, Fields fs) \<in> set chatml_config \<Longrightarrow>
   map_of (fold (chatml_entry fl_true record) chatml_config result) new_key =
     (if messages_for fl_true record fs \<noteq> []
      then Some (JArr (messages_for fl_true record fs)) else map_of result new_key)"
proof (induction chatml_config arbitrary: result)
  case Nil
  then show ?case by simp
next
  case (Cons e es)
  show ?case
  proof (cases "e = (new_key, Fields fs)")
    case True
    with Cons.prems have "new_key \<notin> fst ` set es" by auto
    note other = map_of_fold_chatml_other [OF this]
    from True show ?thesis
      by (simp add: chatml_entry_eq map_of_dict_set other)
  next
    case False
    with Cons.prems have mem: "(new_key, Fields fs) \<in> set es" and d: "distinct (map fst es)"
      by auto
    from Cons.prems mem have "new_key \<noteq> fst e" by (force simp: image_iff)
    then show ?thesis
      by (simp add: Cons.IH [OF d mem] map_of_chatml_entry_other)
  qed
qed

text \<open>
  Claim C3, as the code has it. For an output key of the configuration (a dict:
  its keys are distinct) with source fields, the list is built from the record
  as passed in: the system entry only when its field is present and not falsy,
  then user, then assistant under the same condition. A list that is not empty
  is stored under the output key, over any value already there; an empty list is
  not stored, and the record keeps whatever it had under that key.
\<close>

theorem convert_to_chatml_stores_messages:
  assumes "distinct (map fst chatml_config)"
    and "(new_key, Fields source_fields) \<in> set chatml_config"
  shows "map_of (convert_to_chatml_function fl_true record chatml_config) new_key =
     (if messages_for fl_true record source_fields \<noteq> []
      then Some (JArr (messages_for fl_true record source_fields))
      else map_of record new_key)"
  by (simp add: convert_to_chatml_function_def map_of_fold_chatml [OF assms(1) assms(2)])

text \<open>
  The example of the claim: the empty system field gives no entry, and the list
  has the user and the assistant entries.
\<close>

theorem convert_to_chatml_stores_messages_witness:
  "distinct (map fst [(''messages'', Fields [''sys'', ''u'', ''a''])]) \<and>
   (''messages'', Fields [''sys'', ''u'', ''a'']) \<in> set [(''messages'', Fields [''sys'', ''u'', ''a''])] \<and>
   map_of (convert_to_chatml_function (\<lambda>x. True)
             [(''sys'', JStr ''''), (''u'', JStr ''hello''), (''a'', JStr ''hi'')]
             [(''messages'', Fields [''sys'', ''u'', ''a''])]) ''messages'' =
     Some (JArr [JObj [(''role'', JStr ''user''), (''content'', JStr ''hello'')],
                 JObj [(''role'', JStr ''assistant''), (''content'', JStr ''hi'')]])"
proof -
  have d: "distinct (map fst [(''messages'', Fields [''sys'', ''u'', ''a''])])" by simp
  have m: "(''messages'', Fields [''sys'', ''u'', ''a'']) \<in> set [(''messages'', Fields [''sys'', ''u'', ''a''])]"
    by simp
  from convert_to_chatml_stores_messages [OF d m, of "\<lambda>x. True"
      "[(''sys'', JStr ''''), (''u'', JStr ''hello''), (''a'', JStr ''hi'')]"]
  have "map_of (convert_to_chatml_function (\<lambda>x. True)
             [(''sys'', JStr ''''), (''u'', JStr ''hello''), (''a'', JStr ''hi'')]
             [(''messages'', Fields [''sys'', ''u'', ''a''])]) ''messages'' =
     Some (JArr [JObj [(''role'', JStr ''user''), (''content'', JStr ''hello'')],
                 JObj [(''role'', JStr ''assistant''), (''content'', JStr ''hi'')]])"
    by (simp add: role_entry_def dict_in_def dict_get_def message_def)
  with d m show ?thesis by blast
qed

text \<open>
  The claim as stated fails when every source field is empty: the list is empty,
  and the old value under the output key is still there.
\<close>

theorem convert_to_chatml_counterexample:
  "convert_to_chatml_function (\<lambda>x. True)
     [(''u'', JStr ''''), (''a'', JStr ''''), (''m'', JStr ''old'')]
     [(''m'', Fields [''u'', ''a''])] =
   [(''u'', JStr ''''), (''a'', JStr ''''), (''m'', JStr ''old'')]"
  by (simp add: convert_to_chatml_function_def append_message_def dict_get_def)

section \<open>The operations and the caller's record\<close>

lemma fold_heap_setitem:
  "fold (\<lambda>(key, val) h. heap_setitem res key val h) kvs h =
     h\<lparr>objects := (objects h)(res := fold (\<lambda>(key, val) d. dict_set key val d) kvs (objects h res))\<rparr>"
  by (induction kvs arbitrary: h) (auto simp: heap_setitem_def)

lemma fold_heap_rename:
  "fold (\<lambda>(key, val) h.
           (case map_of m key of
              Some new_key \<Rightarrow> heap_setitem res new_key val h
            | None \<Rightarrow> heap_setitem res key val h)) kvs h =
     h\<lparr>objects := (objects h)(res :=
          fold (\<lambda>(key, val) d.
                  (case map_of m key of
                     Some new_key \<Rightarrow> dict_set new_key val d
                   | None \<Rightarrow> dict_set key val d)) kvs (objects h res))\<rparr>"
  by (induction kvs arbitrary: h) (auto simp: heap_setitem_def split: option.splits)

lemma fold_chatml_entry_heap:
  "rec \<noteq> res \<Longrightarrow>
   fold (chatml_entry_heap fl_true rec res) cfg h =
     h\<lparr>objects := (objects h)(res :=
          fold (chatml_entry fl_true (objects h rec)) cfg (objects h res))\<rparr>"
  by (induction cfg arbitrary: h) (auto simp: chatml_entry_heap_def)

lemma add_keys_heap_eq:
  "add_keys_heap rec keys_to_add h =
     (next_addr h,
      h\<lparr>objects := (objects h)(next_addr h := add_keys (objects h rec) keys_to_add),
        next_addr := Suc (next_addr h)\<rparr>)"
  by (simp add: add_keys_heap_def heap_copy_def fold_heap_setitem add_keys_def)

lemma modify_keys_heap_eq:
  "rec < next_addr h \<Longrightarrow>
   modify_keys_heap rec keys_to_modify h =
     (next_addr h,
      h\<lparr>objects := (objects h)(next_addr h := modify_keys (objects h rec) keys_to_modify),
        next_addr := Suc (next_addr h)\<rparr>)"
  by (simp add: modify_keys_heap_def heap_new_def fold_heap_rename modify_keys_def)

lemma convert_to_chatml_function_heap_eq:
  "rec < next_addr h \<Longrightarrow>
   convert_to_chatml_function_heap fl_true rec chatml_config h =
     (next_addr h,
      h\<lparr>objects := (objects h)(next_addr h :=
            convert_to_chatml_function fl_true (objects h rec) chatml_config),
        next_addr := Suc (next_addr h)\<rparr>)"
  by (simp add: convert_to_chatml_function_heap_def heap_copy_def fold_chatml_entry_heap
      convert_to_chatml_function_def)

text \<open>
  Claim C9. On the store of dicts, each of \<^verbatim>\<open>add_keys\<close>, \<^verbatim>\<open>modify_keys\<close> and
  \<^verbatim>\<open>convert_to_chatml_function\<close> returns a dict at a new address, holding what
  the operation computes from the record passed in, and leaves the dict of the
  caller and every other dict that existed before as they were.
  \<^verbatim>\<open>should_delete_record\<close> changes nothing in the store, and a second call on
  the same record and conditions gives the same boolean.
\<close>

theorem transformers_leave_record_unchanged:
  assumes "record < next_addr h"
  shows "(case add_keys_heap record keys_to_add h of (result, h') \<Rightarrow>
            result \<noteq> record \<and> objects h' record = objects h record \<and>
            (\<forall>a. a < next_addr h \<longrightarrow> objects h' a = objects h a) \<and>
            objects h' result = add_keys (objects h record) keys_to_add) \<and>
         (case modify_keys_heap record keys_to_modify h of (result, h') \<Rightarrow>
            result \<noteq> record \<and> objects h' record = objects h record \<and>
            (\<forall>a. a < next_addr h \<longrightarrow> objects h' a = objects h a) \<and>
            objects h' result = modify_keys (objects h record) keys_to_modify) \<and>
         (case convert_to_chatml_function_heap fl_true record chatml_config h of (result, h') \<Rightarrow>
            result \<noteq> record \<and> objects h' record = objects h record \<and>
            (\<forall>a. a < next_addr h \<longrightarrow> objects h' a = objects h a) \<and>
            objects h' result = convert_to_chatml_function fl_true (objects h record) chatml_config) \<and>
         (case should_delete_record_heap py_eq py_in record delete_conditions h of (once, h') \<Rightarrow>
            h' = h \<and>
            once = should_delete_record py_eq py_in (objects h record) delete_conditions \<and>
            fst (should_delete_record_heap py_eq py_in record delete_conditions h') = once)"
  using assms
  by (simp add: add_keys_heap_eq modify_keys_heap_eq convert_to_chatml_function_heap_eq
      should_delete_record_heap_def)

theorem transformers_leave_record_unchanged_witness:
  "(let h = \<lparr>objects = (\<lambda>a. [])(0 := [(''k'', JInt 1 :: 'a json)]), next_addr = 1\<rparr>
    in (0::nat) < next_addr h \<and>
       objects (snd (add_keys_heap 0 [(''n'', JInt 2)] h)) 0 = [(''k'', JInt 1)] \<and>
       objects (snd (add_keys_heap 0 [(''n'', JInt 2)] h)) 1 = [(''k'', JInt 1), (''n'', JInt 2)] \<and>
       objects (snd (modify_keys_heap 0 [(''k'', ''j'')] h)) 0 = [(''k'', JInt 1)] \<and>
       objects (snd (modify_keys_heap 0 [(''k'', ''j'')] h)) 1 = [(''j'', JInt 1)])"
proof -
  let ?h = "\<lparr>objects = (\<lambda>a. [])(0 := [(''k'', JInt 1 :: 'a json)]), next_addr = 1\<rparr>"
  have a: "(0::nat) < next_addr ?h" by simp
  note inst = transformers_leave_record_unchanged [OF a, of "[(''n'', JInt 2)]" "[(''k'', ''j'')]"]
  from inst have
    "objects (snd (add_keys_heap 0 [(''n'', JInt 2)] ?h)) 0 = objects ?h 0"
    "objects (snd (add_keys_heap 0 [(''n'', JInt 2)] ?h)) (fst (add_keys_heap 0 [(''n'', JInt 2)] ?h))
       = add_keys (objects ?h 0) [(''n'', JInt 2)]"
    "objects (snd (modify_keys_heap 0 [(''k'', ''j'')] ?h)) 0 = objects ?h 0"
    "objects (snd (modify_keys_heap 0 [(''k'', ''j'')] ?h)) (fst (modify_keys_heap 0 [(''k'', ''j'')] ?h))
       = modify_keys (objects ?h 0) [(''k'', ''j'')]"
    by (simp_all add: case_prod_beta)
  moreover have "fst (add_keys_heap 0 [(''n'', JInt 2)] ?h) = 1"
    "fst (modify_keys_heap 0 [(''k'', ''j'')] ?h) = 1"
    by (simp_all add: add_keys_heap_def modify_keys_heap_def heap_copy_def heap_new_def)
  ultimately show ?thesis
    using a by (simp add: add_keys_def modify_keys_def Let_def)
qed

section \<open>Properties of the Single-File Processor\<close>

lemma fold_process_line:
  "fold (process_line fl_true py_eq py_in spec) lines st =
     st\<lparr>writes := writes st @ concat (map (line_output fl_true py_eq py_in spec) lines),
        records_processed := records_processed st +
          length (filter (\<lambda>r. \<not> should_delete_record py_eq py_in r (spec_delete_conditions spec))
                    (valid_records lines)),
        records_deleted := records_deleted st +
          length (filter (\<lambda>r. should_delete_record py_eq py_in r (spec_delete_conditions spec))
                    (valid_records lines)),
        progress_completed := progress_completed st + length lines\<rparr>"
proof (induction lines arbitrary: st)
  case Nil
  then show ?case by simp
next
  case (Cons l lines)
  show ?case by (cases l) (simp_all add: Cons.IH)
qed

lemma validate_from_eq:
  "validate_from n lines =
     (if filter is_malformed lines = [] then None
      else Some (n + length (takeWhile (\<lambda>l. \<not> is_malformed l) lines)))"
proof (induction lines arbitrary: n)
  case Nil
  then show ?case by simp
next
  case (Cons l lines)
  then show ?case by (cases l) simp_all
qed

lemma validate_jsonl_file_eq:
  "validate_jsonl_file lines =
     (if filter is_malformed lines = [] then None
      else Some (Suc (length (takeWhile (\<lambda>l. \<not> is_malformed l) lines))))"
  by (simp add: validate_jsonl_file_def validate_from_eq)

lemma process_loop_eq:
  "process_loop fl_true py_eq py_in spec lines =
     \<lparr>writes = concat (map (line_output fl_true py_eq py_in spec) lines),
      records_processed =
        length (filter (\<lambda>r. \<not> should_delete_record py_eq py_in r (spec_delete_conditions spec))
                  (valid_records lines)),
      records_deleted =
        length (filter (\<lambda>r. should_delete_record py_eq py_in r (spec_delete_conditions spec))
                  (valid_records lines)),
      progress_completed = length lines\<rparr>"
  by (simp add: process_loop_def fold_process_line)

lemma process_invalid_file:
  "validate_jsonl_file lines = Some n \<Longrightarrow>
   process fl_true py_eq py_in (Some lines) a m d c preview = Inl (Exit1 (InvalidJsonAtLine n))"
  by (simp add: process_def)

lemma process_valid_file:
  assumes "validate_jsonl_file lines = None"
    and "parse_json_arg a = Inr adds" and "parse_json_arg m = Inr rens"
    and "parse_json_arg d = Inr dels" and "parse_json_arg c = Inr cfg"
    and "adds \<noteq> [] \<or> rens \<noteq> [] \<or> dels \<noteq> [] \<or> cfg \<noteq> []"
    and "find invalid_chatml cfg = None"
  shows "process fl_true py_eq py_in (Some lines) a m d c False =
     Inr (Completed (length lines)
       (process_loop fl_true py_eq py_in
          \<lparr>spec_additions = adds, spec_renames = rens,
           spec_delete_conditions = dels, spec_chatml = cfg\<rparr> lines))"
  using assms by (auto simp: process_def Let_def)

text \<open>
  Claim C5, as the code has it. The processing loop, on any lines, ends with the
  count of records processed (the records the delete check lets through), the
  count of records deleted, and the progress bar advanced over every line; a
  malformed line is in neither count, there is no count of its own, and it is
  written through verbatim with a line end ensured. \<^verbatim>\<open>process\<close> validates the
  file first: a file with a malformed line ends the run with the fatal error
  that names the first such line, whatever the options, and nothing is counted
  or written; a file that passes, with options that parse, at least one
  operation and a valid ChatML configuration, is run through the loop with
  exactly these options, and the run reports the number of lines of the file as
  the total of the progress bar together with the final counts of the loop.
\<close>

theorem process_reports_counts:
  "process_loop fl_true py_eq py_in spec lines =
     \<lparr>writes = concat (map (line_output fl_true py_eq py_in spec) lines),
      records_processed =
        length (filter (\<lambda>r. \<not> should_delete_record py_eq py_in r (spec_delete_conditions spec))
                  (valid_records lines)),
      records_deleted =
        length (filter (\<lambda>r. should_delete_record py_eq py_in r (spec_delete_conditions spec))
                  (valid_records lines)),
      progress_completed = length lines\<rparr> \<and>
   validate_jsonl_file lines =
     (if filter is_malformed lines = [] then None
      else Some (Suc (length (takeWhile (\<lambda>l. \<not> is_malformed l) lines)))) \<and>
   (validate_jsonl_file lines = Some n \<longrightarrow>
      process fl_true py_eq py_in (Some lines) a m d c preview =
        Inl (Exit1 (InvalidJsonAtLine n))) \<and>
   (validate_jsonl_file lines = None \<and>
    parse_json_arg a = Inr adds \<and> parse_json_arg m = Inr rens \<and>
    parse_json_arg d = Inr dels \<and> parse_json_arg c = Inr cfg \<and>
    (adds \<noteq> [] \<or> rens \<noteq> [] \<or> dels \<noteq> [] \<or> cfg \<noteq> []) \<and>
    find invalid_chatml cfg = None \<longrightarrow>
      process fl_true py_eq py_in (Some lines) a m d c False =
        Inr (Completed (length lines)
          (process_loop fl_true py_eq py_in
             \<lparr>spec_additions = adds, spec_renames = rens,
              spec_delete_conditions = dels, spec_chatml = cfg\<rparr> lines)))"
  using process_loop_eq [of fl_true py_eq py_in spec lines]
    validate_jsonl_file_eq [of lines]
    process_invalid_file [of lines n fl_true py_eq py_in a m d c preview]
    process_valid_file [of lines a adds m rens d dels c cfg fl_true py_eq py_in]
  by blast

text \<open>
  The claim as stated fails for a file with a malformed line: the run exits at
  the validation, the malformed line is not written through, and no count is
  reported.
\<close>

theorem process_reports_counts_counterexample:
  "process (\<lambda>x. True) (=) (\<lambda>x xs. x \<in> set xs)
     (Some [Valid [(''k'', JStr ''keep'')], Malformed ''{bad''])
     (ArgDict [(''n'', JInt 1)]) ArgAbsent ArgAbsent ArgAbsent False =
   Inl (Exit1 (InvalidJsonAtLine 2))"
  by (simp add: process_def validate_jsonl_file_def)


text \<open>
  A file that passes validation, run with an addition and a delete condition;
  and the loop on lines among which two are malformed, one without a line end.
\<close>

theorem process_reports_counts_witness:
  "validate_jsonl_file [Valid [(''k'', JStr ''keep'' :: 'a json)], Blank, Valid [(''k'', JStr ''drop'')]] = None \<and>
   process (\<lambda>x. True) (=) (\<lambda>x xs. x \<in> set xs)
     (Some [Valid [(''k'', JStr ''keep'' :: 'a json)], Blank, Valid [(''k'', JStr ''drop'')]])
     (ArgDict [(''n'', JInt 1)]) ArgAbsent (ArgDict [(''k'', JStr ''drop'')]) ArgAbsent False =
   Inr (Completed 3
     \<lparr>writes = [Dumped [(''k'', JStr ''keep''), (''n'', JInt 1)], Text newline],
      records_processed = 1, records_deleted = 1, progress_completed = 3\<rparr>) \<and>
   process_loop (\<lambda>x. True) (=) (\<lambda>x xs. x \<in> set xs)
     \<lparr>spec_additions = [(''n'', JInt 1 :: 'a json)], spec_renames = [],
      spec_delete_conditions = [(''k'', JStr ''drop'')], spec_chatml = []\<rparr>
     [Valid [(''k'', JStr ''keep'')], Blank, Malformed ''{bad'',
      Valid [(''k'', JStr ''drop'')], Malformed (''[x'' @ newline)] =
     \<lparr>writes = [Dumped [(''k'', JStr ''keep''), (''n'', JInt 1)], Text newline,
                Text ''{bad'', Text newline, Text (''[x'' @ newline)],
      records_processed = 1, records_deleted = 1, progress_completed = 5\<rparr> \<and>
   validate_jsonl_file [Valid [(''k'', JStr ''keep'' :: 'a json)], Blank, Malformed ''{bad'',
      Valid [(''k'', JStr ''drop'')], Malformed (''[x'' @ newline)] = Some 3"
proof -
  let ?spec = "\<lparr>spec_additions = [(''n'', JInt 1 :: 'a json)], spec_renames = [],
      spec_delete_conditions = [(''k'', JStr ''drop'')], spec_chatml = []\<rparr>"
  let ?file = "[Valid [(''k'', JStr ''keep'' :: 'a json)], Blank, Valid [(''k'', JStr ''drop'')]]"
  let ?lines = "[Valid [(''k'', JStr ''keep'' :: 'a json)], Blank, Malformed ''{bad'',
      Valid [(''k'', JStr ''drop'')], Malformed (''[x'' @ newline)]"
  let ?a = "ArgDict [(''n'', JInt 1 :: 'a json)]"
  let ?d = "ArgDict [(''k'', JStr ''drop'' :: 'a json)]"
  note on_file = process_reports_counts [where fl_true = "\<lambda>x. True" and py_eq = "(=)"
      and py_in = "\<lambda>x xs. x \<in> set xs" and spec = ?spec and lines = ?file
      and a = ?a and m = ArgAbsent and d = ?d and c = ArgAbsent
      and adds = "[(''n'', JInt 1)]" and rens = "[]" and dels = "[(''k'', JStr ''drop'')]"
      and cfg = "[]"]
  have valid: "validate_jsonl_file ?file = None"
    by (simp add: validate_jsonl_file_def)
  have loop: "process_loop (\<lambda>x. True) (=) (\<lambda>x xs. x \<in> set xs) ?spec ?file =
     \<lparr>writes = [Dumped [(''k'', JStr ''keep''), (''n'', JInt 1)], Text newline],
      records_processed = 1, records_deleted = 1, progress_completed = 3\<rparr>"
    using on_file [THEN conjunct1]
    by (simp add: dict_in_def dict_get_def apply_modifications_def add_keys_def)
  have "process (\<lambda>x. True) (=) (\<lambda>x xs. x \<in> set xs) (Some ?file) ?a ArgAbsent ?d ArgAbsent False =
      Inr (Completed (length ?file) (process_loop (\<lambda>x. True) (=) (\<lambda>x xs. x \<in> set xs) ?spec ?file))"
    using on_file [THEN conjunct2, THEN conjunct2, THEN conjunct2] valid by simp
  then have run: "process (\<lambda>x. True) (=) (\<lambda>x xs. x \<in> set xs) (Some ?file) ?a ArgAbsent ?d ArgAbsent False =
      Inr (Completed 3
     \<lparr>writes = [Dumped [(''k'', JStr ''keep''), (''n'', JInt 1)], Text newline],
      records_processed = 1, records_deleted = 1, progress_completed = 3\<rparr>)"
    by (simp add: loop)
  note on_lines = process_reports_counts [where fl_true = "\<lambda>x. True" and py_eq = "(=)"
      and py_in = "\<lambda>x xs. x \<in> set xs" and spec = ?spec and lines = ?lines]
  have loop5: "process_loop (\<lambda>x. True) (=) (\<lambda>x xs. x \<in> set xs) ?spec ?lines =
     \<lparr>writes = [Dumped [(''k'', JStr ''keep''), (''n'', JInt 1)], Text newline,
                Text ''{bad'', Text newline, Text (''[x'' @ newline)],
      records_processed = 1, records_deleted = 1, progress_completed = 5\<rparr>"
    using on_lines [THEN conjunct1]
    by (simp add: dict_in_def dict_get_def apply_modifications_def add_keys_def
        ends_with_newline_def newline_def)
  have bad: "validate_jsonl_file ?lines = Some 3"
    using on_lines [THEN conjunct2, THEN conjunct1] by (simp add: numeral_3_eq_3)
  from valid run loop5 bad show ?thesis by (simp only: simp_thms)
qed


lemma find_invalid_chatml:
  assumes "(new_key, Fields fs) \<in> set chatml_config" and "length fs \<noteq> 2 \<and> length fs \<noteq> 3"
  shows "\<exists>k s. find invalid_chatml chatml_config = Some (k, s) \<and> k \<in> fst ` set chatml_config"
proof -
  from assms have "\<exists>e \<in> set chatml_config. invalid_chatml e" by force
  then obtain e where e: "find invalid_chatml chatml_config = Some e"
    by (cases "find invalid_chatml chatml_config") (auto simp: find_None_iff)
  then have "e \<in> set chatml_config" by (auto simp: find_Some_iff)
  with e show ?thesis by (cases e) force
qed

text \<open>
  Claim C6, as the code has it. A configuration with a ChatML entry whose list of
  source fields has neither 2 nor 3 elements always ends \<^verbatim>\<open>process\<close> with a
  fatal error: neither the preview nor the processing loop runs, so no record is
  transformed or written and the entry is never skipped record by record. The
  input file has been validated before the configuration is looked at: when the
  file is valid and the other options parse, the error is the one of the
  configuration, naming a key of it.
\<close>

theorem process_rejects_invalid_chatml:
  assumes "(new_key, Fields fs) \<in> set chatml_config"
    and "length fs \<noteq> 2 \<and> length fs \<noteq> 3"
  shows "(\<exists>e. process fl_true py_eq py_in input_file a m d (ArgDict chatml_config) preview = Inl e) \<and>
         (input_file = Some lines \<and> validate_jsonl_file lines = None \<and>
          a \<noteq> ArgMalformed \<and> m \<noteq> ArgMalformed \<and> d \<noteq> ArgMalformed \<longrightarrow>
            (\<exists>k \<in> fst ` set chatml_config.
               process fl_true py_eq py_in input_file a m d (ArgDict chatml_config) preview =
                 Inl (Exit1 (InvalidChatMLConfiguration k))))"
proof -
  from find_invalid_chatml [OF assms] obtain k s where
    f: "find invalid_chatml chatml_config = Some (k, s)" and k: "k \<in> fst ` set chatml_config"
    by blast
  from assms(1) have ne: "chatml_config \<noteq> []" by auto
  have always: "\<exists>e. process fl_true py_eq py_in input_file a m d (ArgDict chatml_config) preview = Inl e"
    using f ne by (cases a; cases m; cases d)
      (auto simp: process_def split: option.splits)
  have config: "process fl_true py_eq py_in input_file a m d (ArgDict chatml_config) preview =
                 Inl (Exit1 (InvalidChatMLConfiguration k))"
    if "input_file = Some lines" "validate_jsonl_file lines = None"
       "a \<noteq> ArgMalformed" "m \<noteq> ArgMalformed" "d \<noteq> ArgMalformed"
    using that f ne by (cases a; cases m; cases d) (simp_all add: process_def)
  show ?thesis
  proof (intro conjI impI)
    show "\<exists>e. process fl_true py_eq py_in input_file a m d (ArgDict chatml_config) preview = Inl e"
      by (rule always)
  next
    assume "input_file = Some lines \<and> validate_jsonl_file lines = None \<and>
          a \<noteq> ArgMalformed \<and> m \<noteq> ArgMalformed \<and> d \<noteq> ArgMalformed"
    then have "process fl_true py_eq py_in input_file a m d (ArgDict chatml_config) preview =
                 Inl (Exit1 (InvalidChatMLConfiguration k))"
      by (intro config) simp_all
    then show "\<exists>k \<in> fst ` set chatml_config.
               process fl_true py_eq py_in input_file a m d (ArgDict chatml_config) preview =
                 Inl (Exit1 (InvalidChatMLConfiguration k))"
      using k by (rule_tac x = k in bexI)
  qed
qed

text \<open>
  The claim as stated fails: the lines of the input file are read and parsed
  before the configuration is checked, so with the same invalid configuration
  the error is that of the file when its first line does not parse, and that of
  the configuration when the file is valid.
\<close>

theorem process_rejects_invalid_chatml_counterexample:
  "process (\<lambda>x. True) (=) (\<lambda>x xs. x \<in> set xs) (Some [Malformed ''{oops''])
     ArgAbsent ArgAbsent ArgAbsent (ArgDict [(''m'', Fields [''a''])]) False =
     Inl (Exit1 (InvalidJsonAtLine 1)) \<and>
   process (\<lambda>x. True) (=) (\<lambda>x xs. x \<in> set xs) (Some [Valid [(''a'', JInt 1)]])
     ArgAbsent ArgAbsent ArgAbsent (ArgDict [(''m'', Fields [''a''])]) False =
     Inl (Exit1 (InvalidChatMLConfiguration ''m''))"
  by (simp add: process_def validate_jsonl_file_def)

theorem process_rejects_invalid_chatml_witness:
  "(''m'', Fields [''a'', ''b'', ''c'', ''d'']) \<in> set [(''ok'', Fields [''u'', ''a'']), (''m'', Fields [''a'', ''b'', ''c'', ''d''])] \<and>
   (length [''a'', ''b'', ''c'', ''d''] \<noteq> 2 \<and> length [''a'', ''b'', ''c'', ''d''] \<noteq> 3) \<and>
   process (\<lambda>x. True) (=) (\<lambda>x xs. x \<in> set xs) (Some [Valid [(''a'', JInt 1)]])
     (ArgDict [(''n'', JInt 1)]) ArgAbsent ArgAbsent
     (ArgDict [(''ok'', Fields [''u'', ''a'']), (''m'', Fields [''a'', ''b'', ''c'', ''d''])]) False =
     Inl (Exit1 (InvalidChatMLConfiguration ''m''))"
proof -
  have mem: "(''m'', Fields [''a'', ''b'', ''c'', ''d'']) \<in>
      set [(''ok'', Fields [''u'', ''a'']), (''m'', Fields [''a'', ''b'', ''c'', ''d''])]"
    by simp
  have len: "length [''a'', ''b'', ''c'', ''d''] \<noteq> 2 \<and> length [''a'', ''b'', ''c'', ''d''] \<noteq> 3"
    by simp
  from process_rejects_invalid_chatml [OF mem len, of "\<lambda>x. True" "(=)" "\<lambda>x xs. x \<in> set xs"
      "Some [Valid [(''a'', JInt 1)]]" "ArgDict [(''n'', JInt 1)]" ArgAbsent ArgAbsent False
      "[Valid [(''a'', JInt 1)]]"]
  have "\<exists>e. process (\<lambda>x. True) (=) (\<lambda>x xs. x \<in> set xs) (Some [Valid [(''a'', JInt 1)]])
     (ArgDict [(''n'', JInt 1)]) ArgAbsent ArgAbsent
     (ArgDict [(''ok'', Fields [''u'', ''a'']), (''m'', Fields [''a'', ''b'', ''c'', ''d''])]) False = Inl e"
    by blast
  moreover have "process (\<lambda>x. True) (=) (\<lambda>x xs. x \<in> set xs) (Some [Valid [(''a'', JInt 1)]])
     (ArgDict [(''n'', JInt 1)]) ArgAbsent ArgAbsent
     (ArgDict [(''ok'', Fields [''u'', ''a'']), (''m'', Fields [''a'', ''b'', ''c'', ''d''])]) False =
     Inl (Exit1 (InvalidChatMLConfiguration ''m''))"
    by (simp add: process_def validate_jsonl_file_def)
  ultimately show ?thesis using mem len by blast
qed

end
